theory Spec2Isabelle
  imports Main "HOL-Library.Word"
begin

unbundle bit_operations_syntax

section \<open>Bytes, hexadecimal text and integers\<close>

text \<open>
  The program moves bytes over a serial port and compares what it reads as lower-case
  hexadecimal text: \<^verbatim>\<open>s.read(1).hex()\<close>, \<^verbatim>\<open>"{0:02x}".format(b)\<close>,
  \<^verbatim>\<open>bytearray.fromhex(data)\<close>. A byte is an 8-bit word, a Python \<^verbatim>\<open>bytes\<close>
  value a list of them, a Python \<^verbatim>\<open>str\<close> a \<open>string\<close>, a Python \<^verbatim>\<open>int\<close> an \<open>int\<close>.
\<close>

type_synonym byte = "8 word"

definition hex_digit :: "nat \<Rightarrow> char" where
  "hex_digit n = ''0123456789abcdef'' ! n"

text \<open>\<^verbatim>\<open>"{0:02x}".format(b)\<close> and \<^verbatim>\<open>bytes([b]).hex()\<close>: two lower-case digits.\<close>

definition format_02x :: "byte \<Rightarrow> string" where
  "format_02x b = [hex_digit (unat b div 16), hex_digit (unat b mod 16)]"

text \<open>\<^verbatim>\<open>bs.hex()\<close>: the text of a byte sequence.\<close>

definition hexs :: "byte list \<Rightarrow> string" where
  "hexs bs = concat (map format_02x bs)"

text \<open>The value of one hexadecimal digit; \<^verbatim>\<open>fromhex\<close> accepts both cases.\<close>

definition hex_val :: "char \<Rightarrow> nat option" where
  "hex_val c =
     (let k = (of_char c :: nat) in
      if 48 \<le> k \<and> k \<le> 57 then Some (k - 48)
      else if 97 \<le> k \<and> k \<le> 102 then Some (k - 87)
      else if 65 \<le> k \<and> k \<le> 70 then Some (k - 55)
      else None)"

text \<open>The ASCII blanks: space, tab, line feed, vertical tab, form feed, carriage return.\<close>

definition is_space :: "char \<Rightarrow> bool" where
  "is_space c = (let k = (of_char c :: nat) in k = 32 \<or> (9 \<le> k \<and> k \<le> 13))"

text \<open>
  \<^verbatim>\<open>bytearray.fromhex(text)\<close>: it skips the ASCII blanks that stand before a pair
  of digits and reads the two digits of the pair together. \<open>None\<close> is the
  \<^verbatim>\<open>ValueError\<close> of any other text.
\<close>

fun fromhex :: "string \<Rightarrow> byte list option" where
  "fromhex [] = Some []"
| "fromhex (c1 # cs) =
     (if is_space c1 then fromhex cs
      else (case cs of
              [] \<Rightarrow> None
            | c2 # rest \<Rightarrow>
               (case hex_val c1 of None \<Rightarrow> None
                | Some a \<Rightarrow>
               (case hex_val c2 of None \<Rightarrow> None
                | Some b \<Rightarrow>
               (case fromhex rest of None \<Rightarrow> None
                | Some r \<Rightarrow> Some (word_of_nat (16 * a + b) # r))))))"

declare fromhex.simps(2) [simp del]

lemma is_space_Char [simp]:
  "is_space (Char b0 b1 b2 b3 b4 b5 b6 b7) =
     (let k = (of_char (Char b0 b1 b2 b3 b4 b5 b6 b7) :: nat) in k = 32 \<or> (9 \<le> k \<and> k \<le> 13))"
  by (simp only: is_space_def)

lemma fromhex_blank [simp]: "is_space c \<Longrightarrow> fromhex (c # cs) = fromhex cs"
  by (simp add: fromhex.simps(2))

lemma fromhex_single [simp]: "\<not> is_space c \<Longrightarrow> fromhex [c] = None"
  by (simp add: fromhex.simps(2))

lemma fromhex_pair [simp]:
  "\<not> is_space c1 \<Longrightarrow>
   fromhex (c1 # c2 # cs) =
     (case hex_val c1 of None \<Rightarrow> None
      | Some a \<Rightarrow>
     (case hex_val c2 of None \<Rightarrow> None
      | Some b \<Rightarrow>
     (case fromhex cs of None \<Rightarrow> None
      | Some r \<Rightarrow> Some (word_of_nat (16 * a + b) # r))))"
  by (simp add: fromhex.simps(2))

text \<open>\<^verbatim>\<open>int.from_bytes(bs, "big")\<close>.\<close>

definition from_bytes_big :: "byte list \<Rightarrow> int" where
  "from_bytes_big bs = foldl (\<lambda>acc b. 256 * acc + uint b) 0 bs"

text \<open>
  \<^verbatim>\<open>unpack("<I", bs)[0]\<close>: a little-endian unsigned 32-bit integer; \<open>None\<close> is the
  \<^verbatim>\<open>struct.error\<close> raised when \<open>bs\<close> is not exactly four bytes long.
\<close>

fun unpack_I :: "byte list \<Rightarrow> int option" where
  "unpack_I [b0, b1, b2, b3] =
     Some (uint b0 + 256 * uint b1 + 65536 * uint b2 + 16777216 * uint b3)"
| "unpack_I bs = None"

text \<open>
  \<^verbatim>\<open>hex(n).split('x')[1]\<close> for \<open>n \<ge> 0\<close>: the lower-case hexadecimal digits of \<open>n\<close>
  without the \<^verbatim>\<open>0x\<close> prefix (\<^verbatim>\<open>hex(0)\<close> is \<^verbatim>\<open>0x0\<close>).
\<close>

function hex_digits :: "nat \<Rightarrow> string" where
  "hex_digits n = (if n < 16 then [hex_digit n] else hex_digits (n div 16) @ [hex_digit (n mod 16)])"
  by pat_completeness auto
termination
  by (relation "measure id") auto

declare hex_digits.simps [simp del]

section \<open>Errors\<close>

text \<open>
  Every way the program leaves a function other than by returning:
  \<^verbatim>\<open>sys.exit(0)\<close> raises \<^verbatim>\<open>SystemExit\<close>; \<^verbatim>\<open>len(None)\<close> and \<^verbatim>\<open>''.join(None)\<close>
  raise \<^verbatim>\<open>TypeError\<close>; a dictionary lookup of a missing key raises \<^verbatim>\<open>KeyError\<close>
  with the key; \<^verbatim>\<open>fromhex\<close> raises \<^verbatim>\<open>ValueError\<close>; \<^verbatim>\<open>unpack\<close> raises
  \<^verbatim>\<open>struct.error\<close>.
\<close>

datatype error = SystemExit | TypeError | KeyError int | ValueError | StructError

section \<open>The DA image header: \<^verbatim>\<open>load_da\<close>\<close>

text \<open>
  The file object is its content and a cursor. \<^verbatim>\<open>f.read(4)\<close> returns the (at most)
  four bytes at the cursor; \<^verbatim>\<open>f.seek\<close> may move the cursor past the end.
\<close>

definition f_read :: "byte list \<Rightarrow> nat \<Rightarrow> nat \<Rightarrow> byte list" where
  "f_read f pos n = take n (drop pos f)"

text \<open>
  The loop \<^verbatim>\<open>for i in range(da_count)\<close> of \<^verbatim>\<open>load_da\<close>. Each round reads a
  four-byte word at the cursor \<open>pos\<close>, prints one line for it, and seeks to
  \<^verbatim>\<open>f.tell() + 220 - 4\<close>, where \<^verbatim>\<open>f.tell()\<close> is \<open>pos + 4\<close> after the read.
  \<open>out\<close> collects the printed lines; a \<^verbatim>\<open>struct.error\<close> leaves those printed so far.
\<close>

fun load_da_loop :: "nat \<Rightarrow> byte list \<Rightarrow> nat \<Rightarrow> string list \<Rightarrow> (error \<times> string list) + (string list \<times> nat)" where
  "load_da_loop 0 f pos out = Inr (out, pos)"
| "load_da_loop (Suc k) f pos out =
     (case unpack_I (f_read f pos 4) of
        None \<Rightarrow> Inl (StructError, out)
      | Some word \<Rightarrow>
          (let hw_code = hex_digits (nat (drop_bit 16 word))
           in load_da_loop k f (pos + 4 + 220 - 4) (out @ [''    - MT'' @ hw_code])))"

text \<open>
  \<^verbatim>\<open>load_da\<close> on a DA file with content \<open>f\<close>. When it returns, the result holds the
  Python value the function returns, the lines it printed for the supported chips, and
  the final cursor. The function has no \<^verbatim>\<open>return\<close> statement, so the value it returns
  is always \<^verbatim>\<open>None\<close> (here \<open>None :: byte list option\<close>): the body of the image is
  never read. When it raises, the result holds the error and the lines printed before it.
\<close>

definition load_da :: "byte list \<Rightarrow> (error \<times> string list) + (byte list option \<times> string list \<times> nat)" where
  "load_da f =
     (let pos = 0x68 in
      case unpack_I (f_read f pos 4) of
        None \<Rightarrow> Inl (StructError, [])
      | Some da_count \<Rightarrow>
          (case load_da_loop (nat da_count) f (pos + 4) [] of
             Inl (e, out) \<Rightarrow> Inl (e, out)
           | Inr (out, pos') \<Rightarrow> Inr (None, out, pos')))"

text \<open>
  The specification's reading of a record: the little-endian value of a byte sequence,
  and the line printed for the record that starts at \<open>pos\<close>.
\<close>

definition le32 :: "byte list \<Rightarrow> int" where
  "le32 bs = foldr (\<lambda>b acc. uint b + 256 * acc) bs 0"

definition chip_line :: "byte list \<Rightarrow> nat \<Rightarrow> string" where
  "chip_line f pos = ''    - MT'' @ hex_digits (nat (drop_bit 16 (le32 (f_read f pos 4))))"

text \<open>A sample image: 0x68 bytes, the count 3, and three 220-byte records.\<close>

definition da_record :: "byte \<Rightarrow> byte \<Rightarrow> byte list" where
  "da_record lo hi = [0, 0, lo, hi] @ replicate 216 0"

definition da_sample :: "byte list" where
  "da_sample = replicate 0x68 0 @ [3, 0, 0, 0]
     @ da_record 0x65 0x67 @ da_record 0x61 0x67 @ da_record 0x68 0x67"

section \<open>The serial port and the rest of the world\<close>

text \<open>
  The descriptor table \<^verbatim>\<open>chip_map\<close> is a module-level dictionary of dictionaries; its
  values are integers and strings.
\<close>

datatype pyval = PyInt int | PyStr string

type_synonym chip_config = "string \<Rightarrow> pyval option"

text \<open>
  Everything the program reads or changes besides its local variables:
  \<^item> \<open>in_buf\<close>: the bytes the port has received and the program has not read yet
    (\<^verbatim>\<open>s.in_waiting\<close> is its length);
  \<^item> \<open>arrivals\<close>: what the device will still send, as one burst (possibly empty) for
    each later moment at which the program looks at the port. A device that has gone
    silent for good is the empty list;
  \<^item> \<open>tx\<close>: the argument of every \<^verbatim>\<open>s.write\<close> call so far, in order;
  \<^item> \<open>naps\<close>: the duration of every \<^verbatim>\<open>time.sleep\<close> call so far, in milliseconds;
  \<^item> \<open>stdout\<close>: the lines printed so far, of those that the model keeps: the
    outcome of the handshake and of the authentication, the notice of a skipped
    qualification and one line for each chip of the DA header. The banners and summaries
    around them and the \<^verbatim>\<open>DEBUG\<close> traces are left out;
  \<^item> \<open>chip_map\<close>: the current content of the global descriptor table.
\<close>

record world =
  in_buf :: "byte list"
  arrivals :: "byte list list"
  tx :: "byte list list"
  naps :: "nat list"
  stdout :: "string list"
  chip_map :: "int \<Rightarrow> chip_config option"

text \<open>
  A call returns a value, raises, or never returns (a blocking read or a busy wait on a
  device that stays silent).
\<close>

datatype 'a result = Hang | Raise error world | Return 'a world

definition and_then :: "'a result \<Rightarrow> ('a \<Rightarrow> world \<Rightarrow> 'b result) \<Rightarrow> 'b result" where
  "and_then m f = (case m of Hang \<Rightarrow> Hang | Raise e w \<Rightarrow> Raise e w | Return a w \<Rightarrow> f a w)"

text \<open>The table of \<^verbatim>\<open>chip_mapping.py\<close> as the module builds it.\<close>

definition chip_map_static :: "int \<Rightarrow> chip_config option" where
  "chip_map_static =
     Map.empty(0x766 \<mapsto>
       Map.empty(''id'' \<mapsto> PyInt 0x766,
                 ''name'' \<mapsto> PyStr ''MT6765'',
                 ''hw_code'' \<mapsto> PyInt 0x6765,
                 ''da_load_addr'' \<mapsto> PyInt 0x200000,
                 ''da_sig_len'' \<mapsto> PyInt 0x100))"

definition SKIP_SLA :: bool where
  "SKIP_SLA = False"

subsection \<open>Port primitives\<close>

definition s_write :: "world \<Rightarrow> byte list \<Rightarrow> world" where
  "s_write w bs = w\<lparr>tx := tx w @ [bs]\<rparr>"

text \<open>One more burst of the device reaches the input buffer.\<close>

definition tick :: "world \<Rightarrow> world" where
  "tick w = (case arrivals w of [] \<Rightarrow> w
             | a # as \<Rightarrow> w\<lparr>in_buf := in_buf w @ a, arrivals := as\<rparr>)"

definition in_waiting :: "world \<Rightarrow> nat \<times> world" where
  "in_waiting w = (let w' = tick w in (length (in_buf w'), w'))"

text \<open>
  \<^verbatim>\<open>s.read(1)\<close> on a port opened without a timeout: it returns a buffered byte at once
  and otherwise blocks until one arrives, for ever when none does.
\<close>

function s_read1 :: "world \<Rightarrow> byte result" where
  "s_read1 w =
     (case in_buf w of
        b # bs \<Rightarrow> Return b (w\<lparr>in_buf := bs\<rparr>)
      | [] \<Rightarrow> (if arrivals w = [] then Hang else s_read1 (tick w)))"
  by pat_completeness auto
termination
  by (relation "measure (\<lambda>w. length (arrivals w))") (auto simp: tick_def split: list.splits)

declare s_read1.simps [simp del]

definition sleep :: "world \<Rightarrow> nat \<Rightarrow> world" where
  "sleep w ms = w\<lparr>naps := naps w @ [ms]\<rparr>"

definition print :: "world \<Rightarrow> string \<Rightarrow> world" where
  "print w line = w\<lparr>stdout := stdout w @ [line]\<rparr>"

subsection \<open>\<^verbatim>\<open>write_serial_raw\<close>, \<^verbatim>\<open>write_serial\<close>, \<^verbatim>\<open>read_serial\<close>\<close>

text \<open>
  \<^verbatim>\<open>write_serial_raw\<close> formats every byte as two hexadecimal digits and, unless
  \<open>nowrite\<close>, passes \<^verbatim>\<open>bytearray.fromhex\<close> of these digits to its own \<^verbatim>\<open>s.write\<close>
  call.
\<close>

fun write_serial_raw :: "world \<Rightarrow> byte list \<Rightarrow> bool \<Rightarrow> unit result" where
  "write_serial_raw w [] nowrite = Return () w"
| "write_serial_raw w (cmd_byte # rest) nowrite =
     (let hex_byte = format_02x cmd_byte in
      if nowrite then write_serial_raw w rest nowrite
      else (case fromhex hex_byte of
              None \<Rightarrow> Raise ValueError w
            | Some bs \<Rightarrow> write_serial_raw (s_write w bs) rest nowrite))"

definition write_serial :: "world \<Rightarrow> string \<Rightarrow> unit result" where
  "write_serial w data =
     (case fromhex data of
        None \<Rightarrow> Raise ValueError w
      | Some cmd_bytes \<Rightarrow> write_serial_raw w cmd_bytes False)"

fun read_serial :: "world \<Rightarrow> nat \<Rightarrow> string list result" where
  "read_serial w 0 = Return [] w"
| "read_serial w (Suc n) =
     and_then (s_read1 w) (\<lambda>b w1.
     and_then (read_serial w1 n) (\<lambda>ret w2.
     Return (format_02x b # ret) w2))"

declare read_serial.simps [simp del]

lemma read_serial_0 [simp]: "read_serial w 0 = Return [] w"
  by (simp add: read_serial.simps)

lemma and_then_simps [simp]:
  "and_then Hang f = Hang"
  "and_then (Raise e w) f = Raise e w"
  "and_then (Return a w) f = f a w"
  by (simp_all add: and_then_def)

section \<open>The handshake: \<^verbatim>\<open>try_handshake\<close>\<close>

text \<open>\<^verbatim>\<open>while not s.in_waiting: continue\<close>: it spins for ever on a silent device.\<close>

function busy_wait :: "world \<Rightarrow> unit result" where
  "busy_wait w =
     (case in_waiting w of
        (n, w1) \<Rightarrow> if n \<noteq> 0 then Return () w1
                   else if arrivals w = [] then Hang
                   else busy_wait w1)"
  by pat_completeness auto
termination
  by (relation "measure (\<lambda>w. length (arrivals w))")
     (auto simp: in_waiting_def tick_def Let_def split: list.splits)

declare busy_wait.simps [simp del]

text \<open>\<^verbatim>\<open>for i in range(rb_count): rdata += ''.join(read_serial(s, 1))\<close>.\<close>

fun drain :: "nat \<Rightarrow> string \<Rightarrow> world \<Rightarrow> string result" where
  "drain 0 rdata w = Return rdata w"
| "drain (Suc i) rdata w =
     and_then (read_serial w 1) (\<lambda>r w1. drain i (rdata @ concat r) w1)"

text \<open>\<^verbatim>\<open>str(b'READY'.hex())\<close>, the text \<^verbatim>\<open>5245414459\<close>.\<close>

definition preloader_greet :: string where
  "preloader_greet = concat (map format_02x [0x52, 0x45, 0x41, 0x44, 0x59])"

definition data :: string where
  "data = ''a00a5005''"

definition handshake_magic :: string where
  "handshake_magic = ''5ff5affa''"

text \<open>\<^verbatim>\<open>bytearray.fromhex(data)\<close>.\<close>

definition cmd_bytes :: "byte list" where
  "cmd_bytes = [0xa0, 0x0a, 0x50, 0x05]"

text \<open>
  The loop \<^verbatim>\<open>for cmd_byte in cmd_bytes\<close> over the bytes still to send, with the local
  variables \<open>rdata\<close>, \<open>is_preloader\<close> and \<open>retry\<close>. The first branch of the
  \<open>if\<close> is the \<^verbatim>\<open>break\<close>: it leaves the loop without running \<^verbatim>\<open>retry = False\<close>
  and without sending the bytes that remain.
\<close>

fun send_magic :: "byte list \<Rightarrow> string \<Rightarrow> bool \<Rightarrow> bool \<Rightarrow> world \<Rightarrow> (string \<times> bool \<times> bool) result" where
  "send_magic [] rdata is_preloader retry w = Return (rdata, is_preloader, retry) w"
| "send_magic (cmd_byte # rest) rdata is_preloader retry w =
     and_then (write_serial w (format_02x cmd_byte)) (\<lambda>_ w1.
     and_then (busy_wait w1) (\<lambda>_ w2.
     and_then (read_serial w2 1) (\<lambda>r w3.
     (case in_waiting w3 of (rb_count, w4) \<Rightarrow>
     and_then (drain rb_count (rdata @ concat r) w4) (\<lambda>rdata' w5.
     if rdata' = preloader_greet then Return (rdata', True, retry) w5
     else send_magic rest rdata' is_preloader False w5)))))"

text \<open>
  The number of bytes the device has sent or will send and the program has not read. Every
  pass of the handshake reads at least one of them, which bounds the number of passes.
\<close>

definition pending :: "world \<Rightarrow> nat" where
  "pending w = length (in_buf w) + length (concat (arrivals w))"

lemma pending_tick [simp]: "pending (tick w) = pending w"
  by (simp add: pending_def tick_def split: list.splits)

lemma pending_s_write [simp]: "pending (s_write w bs) = pending w"
  by (simp add: pending_def s_write_def)

lemma write_serial_raw_pending:
  "write_serial_raw w bs nw = Return u w' \<Longrightarrow> pending w' = pending w"
  by (induction w bs nw rule: write_serial_raw.induct)
     (auto simp: Let_def split: if_splits option.splits)

lemma write_serial_pending:
  "write_serial w d = Return u w' \<Longrightarrow> pending w' = pending w"
  by (auto simp: write_serial_def split: option.splits dest: write_serial_raw_pending)

lemma busy_wait_pending:
  "busy_wait w = Return u w' \<Longrightarrow> pending w' = pending w"
proof (induction w rule: busy_wait.induct)
  case (1 w)
  then show ?case
    by (subst (asm) (2) busy_wait.simps)
       (auto simp: in_waiting_def Let_def split: if_splits)
qed

lemma s_read1_pending:
  "s_read1 w = Return b w' \<Longrightarrow> Suc (pending w') = pending w"
proof (induction w rule: s_read1.induct)
  case (1 w)
  show ?case
  proof (cases "in_buf w")
    case Nil
    with 1 show ?thesis
      by (subst (asm) (2) s_read1.simps) (auto split: if_splits)
  next
    case (Cons c cs)
    with 1(2) show ?thesis
      by (subst (asm) s_read1.simps) (auto simp: pending_def)
  qed
qed

lemma read_serial_pending:
  "read_serial w n = Return r w' \<Longrightarrow> pending w' + n = pending w"
proof (induction n arbitrary: w r)
  case 0
  then show ?case by simp
next
  case (Suc n)
  then show ?case
    by (auto simp: read_serial.simps(2) and_then_def split: result.splits dest!: s_read1_pending)
qed

lemma and_then_ReturnE:
  assumes "and_then m f = Return b w'"
  obtains a w1 where "m = Return a w1" and "f a w1 = Return b w'"
  using assms by (cases m) simp_all

lemma drain_pending:
  "drain i rd w = Return r w' \<Longrightarrow> pending w' \<le> pending w"
proof (induction i arbitrary: rd w)
  case 0
  then show ?case by simp
next
  case (Suc i)
  from Suc.prems obtain r1 w1 where
    rd1: "read_serial w 1 = Return r1 w1" and rest: "drain i (rd @ concat r1) w1 = Return r w'"
    by (auto elim: and_then_ReturnE)
  from read_serial_pending [OF rd1] Suc.IH [OF rest] show ?case by simp
qed

lemma send_magic_step:
  assumes "send_magic (b # bs) rd p t w = Return x w'"
  obtains rd' p' t' w5 where "pending w5 < pending w"
    and "send_magic [] rd' p' t' w5 = Return x w' \<or> send_magic bs rd' p' t' w5 = Return x w'"
proof -
  from assms obtain u1 w1 where
    a1: "write_serial w (format_02x b) = Return u1 w1" and
    b1: "and_then (busy_wait w1) (\<lambda>_ w2.
     and_then (read_serial w2 1) (\<lambda>r w3.
     (case in_waiting w3 of (rb_count, w4) \<Rightarrow>
     and_then (drain rb_count (rd @ concat r) w4) (\<lambda>rdata' w5.
     if rdata' = preloader_greet then Return (rdata', True, t) w5
     else send_magic bs rdata' p False w5)))) = Return x w'"
    by (auto elim: and_then_ReturnE)
  from b1 obtain u2 w2 where
    a2: "busy_wait w1 = Return u2 w2" and
    b2: "and_then (read_serial w2 1) (\<lambda>r w3.
     (case in_waiting w3 of (rb_count, w4) \<Rightarrow>
     and_then (drain rb_count (rd @ concat r) w4) (\<lambda>rdata' w5.
     if rdata' = preloader_greet then Return (rdata', True, t) w5
     else send_magic bs rdata' p False w5))) = Return x w'"
    by (auto elim: and_then_ReturnE)
  from b2 obtain r w3 where
    a3: "read_serial w2 1 = Return r w3" and
    b3: "(case in_waiting w3 of (rb_count, w4) \<Rightarrow>
     and_then (drain rb_count (rd @ concat r) w4) (\<lambda>rdata' w5.
     if rdata' = preloader_greet then Return (rdata', True, t) w5
     else send_magic bs rdata' p False w5)) = Return x w'"
    by (auto elim: and_then_ReturnE)
  from b3 obtain rd' w5 where
    a4: "drain (length (in_buf (tick w3))) (rd @ concat r) (tick w3) = Return rd' w5" and
    b4: "(if rd' = preloader_greet then Return (rd', True, t) w5
          else send_magic bs rd' p False w5) = Return x w'"
    by (auto simp: in_waiting_def Let_def elim: and_then_ReturnE)
  have "pending w5 < pending w"
    using write_serial_pending [OF a1] busy_wait_pending [OF a2] read_serial_pending [OF a3]
      drain_pending [OF a4] by simp
  moreover from b4 have "send_magic [] rd' True t w5 = Return x w' \<or> send_magic bs rd' p False w5 = Return x w'"
    by (auto split: if_splits)
  ultimately show thesis
    using that by blast
qed

lemma send_magic_pending:
  "send_magic bs rd p t w = Return x w' \<Longrightarrow> pending w' \<le> pending w"
proof (induction bs arbitrary: rd p t w)
  case Nil
  then show ?case by simp
next
  case (Cons b bs)
  from Cons.prems show ?case
  proof (rule send_magic_step)
    fix rd' p' t' w5
    assume lt: "pending w5 < pending w"
      and alt: "send_magic [] rd' p' t' w5 = Return x w' \<or> send_magic bs rd' p' t' w5 = Return x w'"
    from alt have "pending w' \<le> pending w5"
      using Cons.IH by auto
    with lt show ?thesis by simp
  qed
qed

lemma send_magic_consumes:
  assumes "send_magic (b # bs) rd p t w = Return x w'"
  shows "pending w' < pending w"
  using assms
proof (rule send_magic_step)
  fix rd' p' t' w5
  assume lt: "pending w5 < pending w"
    and alt: "send_magic [] rd' p' t' w5 = Return x w' \<or> send_magic bs rd' p' t' w5 = Return x w'"
  from alt have "pending w' \<le> pending w5"
    by (metis send_magic_pending)
  with lt show ?thesis by simp
qed

text \<open>
  The loop \<^verbatim>\<open>while retry\<close>: every pass clears \<open>rdata\<close> and sends the magic bytes
  from the first one.
\<close>

function handshake_loop :: "string \<Rightarrow> bool \<Rightarrow> bool \<Rightarrow> world \<Rightarrow> (string \<times> bool) result" where
  "handshake_loop rdata is_preloader retry w =
     (if retry then
        (case send_magic cmd_bytes [] is_preloader retry w of
           Hang \<Rightarrow> Hang
         | Raise e w' \<Rightarrow> Raise e w'
         | Return (rdata', is_preloader', retry') w' \<Rightarrow>
             handshake_loop rdata' is_preloader' retry' w')
      else Return (rdata, is_preloader) w)"
  by pat_completeness auto
termination
proof (relation "measure (\<lambda>(rdata, is_preloader, retry, w). pending w)")
  show "wf (measure (\<lambda>(rdata, is_preloader, retry, w). pending w))" by simp
next
  fix rdata :: string and is_preloader retry :: bool and w x2 x1 x2a x1a x2b x2c
  assume "send_magic cmd_bytes [] is_preloader retry w = Return x1 x2"
  then have "pending x2 < pending w"
    unfolding cmd_bytes_def by (rule send_magic_consumes)
  then show "((x1a, x1b, x2b, x2), rdata, is_preloader, retry, w)
       \<in> measure (\<lambda>(rdata, is_preloader, retry, w). pending w)" for x1b
    by simp
qed

declare handshake_loop.simps [simp del]

text \<open>
  \<^verbatim>\<open>try_handshake\<close> returns \<^verbatim>\<open>True\<close>, returns \<^verbatim>\<open>None\<close> after the warning, or
  leaves the process through \<^verbatim>\<open>sys.exit(0)\<close>.
\<close>

definition try_handshake :: "world \<Rightarrow> string \<Rightarrow> bool option result" where
  "try_handshake w port =
     and_then (handshake_loop [] False True w) (\<lambda>(rdata, is_preloader) w'.
       if rdata = handshake_magic then
         Return (Some True)
           (print (print w' (''Handshake success! Found MTK device at '' @ port))
              (''Device connected via '' @ (if is_preloader then ''Preloader'' else ''BootROM'')))
       else if rdata = data then
         Return None
           (print w' ''Handshake complete. Warning: device returned input data. (Is Handshake already done?)'')
       else Raise SystemExit (print w' ''Handshake failed! Aborting.''))"

text \<open>
  What \<^verbatim>\<open>try_handshake\<close> does once its loop has ended, read on the bytes \<open>resp\<close> whose
  text the loop has accumulated: the comparison of \<^verbatim>\<open>rdata\<close> with \<^verbatim>\<open>handshake_magic\<close>
  ("5ff5affa") and with \<^verbatim>\<open>data\<close> ("a00a5005"), and the three ways out. \<open>greeted\<close> is the
  flag \<^verbatim>\<open>is_preloader\<close>.
\<close>

definition handshake_outcome :: "byte list \<Rightarrow> bool \<Rightarrow> string \<Rightarrow> world \<Rightarrow> bool option result" where
  "handshake_outcome resp greeted port w =
     (if resp = [0x5f, 0xf5, 0xaf, 0xfa] then
        Return (Some True)
          (print (print w (''Handshake success! Found MTK device at '' @ port))
             (''Device connected via '' @ (if greeted then ''Preloader'' else ''BootROM'')))
      else if resp = [0xa0, 0x0a, 0x50, 0x05] then
        Return None
          (print w ''Handshake complete. Warning: device returned input data. (Is Handshake already done?)'')
      else Raise SystemExit (print w ''Handshake failed! Aborting.''))"

section \<open>Command and response: \<^verbatim>\<open>read_resp\<close>\<close>

text \<open>
  The loop \<^verbatim>\<open>while not s.in_waiting\<close> of \<^verbatim>\<open>read_resp\<close> with its counter \<open>ctr\<close>:
  it sleeps 0.1 s after every check that finds no data and stops after the sleep at which
  the counter is 15. (From a counter above 15 the loop would only end when data arrives.)
\<close>

function poll :: "nat \<Rightarrow> world \<Rightarrow> unit result" where
  "poll ctr w =
     (case in_waiting w of
        (n, w1) \<Rightarrow>
          if n \<noteq> 0 then Return () w1
          else (let w2 = sleep w1 100 in
                if ctr = 15 then Return () w2
                else if 15 < ctr \<and> arrivals w = [] then Hang
                else poll (ctr + 1) w2))"
  by pat_completeness auto
termination
  by (relation "measures [\<lambda>(ctr, w). length (arrivals w), \<lambda>(ctr, w). 16 - ctr]")
     (auto simp: in_waiting_def tick_def sleep_def Let_def split: list.splits)

declare poll.simps [simp del]

text \<open>
  \<^verbatim>\<open>read_resp(s, cmd, inital_sleep=0.1)\<close>, with the sleep in milliseconds. When the
  echo differs from \<open>cmd\<close> the function ends without a \<^verbatim>\<open>return\<close>: its value is
  \<^verbatim>\<open>None\<close>. Otherwise its value is the list read by \<^verbatim>\<open>read_serial\<close>.
\<close>

definition read_resp :: "world \<Rightarrow> string \<Rightarrow> nat \<Rightarrow> string list option result" where
  "read_resp w cmd inital_sleep =
     and_then (write_serial w cmd) (\<lambda>_ w1.
     and_then (read_serial w1 1) (\<lambda>echo w2.
     if concat echo = cmd then
       (let ctr = 0; w3 = sleep w2 inital_sleep in
        and_then (poll ctr w3) (\<lambda>_ w4.
        (case in_waiting w4 of (n, w5) \<Rightarrow>
        and_then (read_serial w5 n) (\<lambda>resp w6. Return (Some resp) w6))))
     else Return None w2))"

section \<open>Chip identification: \<^verbatim>\<open>get_chip_id\<close>\<close>

text \<open>
  \<^verbatim>\<open>int.from_bytes(bytes.fromhex(''.join(bstr)), "big")\<close>; joining \<^verbatim>\<open>None\<close> raises
  \<^verbatim>\<open>TypeError\<close>.
\<close>

definition bstr_to_int :: "string list option \<Rightarrow> world \<Rightarrow> int result" where
  "bstr_to_int bstr w =
     (case bstr of
        None \<Rightarrow> Raise TypeError w
      | Some parts \<Rightarrow>
          (case fromhex (concat parts) of
             None \<Rightarrow> Raise ValueError w
           | Some bs \<Rightarrow> Return (from_bytes_big bs) w))"

text \<open>
  \<^verbatim>\<open>chip_config = chip_map[hw_code_resp >> 16]\<close> is a reference to the dictionary
  stored in the table, so the three assignments that follow change the table's entry
  itself. Each entry is reachable through its key only, so the key stands for the
  reference: \<^verbatim>\<open>get_chip_id\<close> returns the key, and the descriptor it returned is the
  entry of \<open>chip_map\<close> under that key in the current world. The banner printed before
  the return is left out.
\<close>

definition get_chip_id :: "world \<Rightarrow> int result" where
  "get_chip_id w =
     (let hw_code_cmd = ''fd''; hw_sub_cmd = ''fc'' in
      and_then (read_resp w hw_code_cmd 100) (\<lambda>r1 w1.
      and_then (bstr_to_int r1 w1) (\<lambda>hw_code_resp w2.
      and_then (read_resp w2 hw_sub_cmd 100) (\<lambda>r2 w3.
      and_then (bstr_to_int r2 w3) (\<lambda>hw_sub_resp w4.
      (let key = drop_bit 16 hw_code_resp in
       case chip_map w4 key of
         None \<Rightarrow> Raise (KeyError key) w4
       | Some chip_config \<Rightarrow>
           (let c1 = chip_config(''hw_sub_code'' \<mapsto> PyInt (drop_bit 16 (drop_bit 32 hw_sub_resp)));
                c2 = c1(''hw_version'' \<mapsto> PyInt (drop_bit 32 hw_sub_resp AND 0xFFFF));
                c3 = c2(''sw_version'' \<mapsto> PyInt (hw_sub_resp AND 0xFFFFFFFF))
            in Return key (w4\<lparr>chip_map := (chip_map w4)(key \<mapsto> c3)\<rparr>))))))))"

section \<open>Authentication and host qualification\<close>

text \<open>\<^verbatim>\<open>send_auth_file\<close>; \<open>auth_file\<close> is the content of the file it loads.\<close>

definition send_auth_file :: "world \<Rightarrow> byte list \<Rightarrow> unit result" where
  "send_auth_file w auth_file =
     and_then (write_serial w ''e2'') (\<lambda>_ w1.
     and_then (read_serial w1 1) (\<lambda>r1 w2.
     if concat r1 = ''e2'' then
       and_then (write_serial w2 ''000008d0'') (\<lambda>_ w3.
       and_then (read_serial w3 4) (\<lambda>r2 w4.
       if concat r2 = ''000008d0'' then
         and_then (read_serial w4 2) (\<lambda>_ w5.
         and_then (write_serial_raw w5 auth_file False) (\<lambda>_ w6.
         and_then (read_serial w6 2) (\<lambda>_ w7.
         and_then (read_serial w7 2) (\<lambda>r3 w8.
         if concat r3 = ''0000'' then Return () (print w8 ''Auth file send success!'')
         else Raise SystemExit (print w8 ''Failed to send auth file! Aborting.'')))))
       else Raise SystemExit (print w4 ''Bad command! Aborting.'')))
     else Raise SystemExit (print w2 ''Send Auth File failed! Aborting.'')))"

text \<open>\<^verbatim>\<open>for i in range(0, 16): write_serial(s, ''.join(ip))\<close>.\<close>

fun write_ip :: "nat \<Rightarrow> string list \<Rightarrow> world \<Rightarrow> unit result" where
  "write_ip 0 ip w = Return () w"
| "write_ip (Suc i) ip w = and_then (write_serial w (concat ip)) (\<lambda>_ w1. write_ip i ip w1)"

text \<open>
  \<^verbatim>\<open>qualify_host\<close>: neither \<open>if\<close> has an \<^verbatim>\<open>else\<close> branch, so a mismatch ends the
  function with the value \<^verbatim>\<open>None\<close>.
\<close>

definition qualify_host :: "world \<Rightarrow> unit result" where
  "qualify_host w =
     (if SKIP_SLA then Return () (print w ''Skipping qualify host! (SLA_Challenge)'')
      else
        and_then (write_serial w ''e3'') (\<lambda>_ w1.
        and_then (read_serial w1 1) (\<lambda>r1 w2.
        if concat r1 = ''e3'' then
          and_then (read_serial w2 2) (\<lambda>_ w3.
          and_then (read_serial w3 4) (\<lambda>_ w4.
          and_then (read_serial w4 16) (\<lambda>ip w5.
          and_then (write_serial w5 ''00000100'') (\<lambda>_ w6.
          and_then (read_serial w6 4) (\<lambda>r2 w7.
          if concat r2 = ''00000100'' then
            and_then (read_serial w7 2) (\<lambda>_ w8.
            and_then (write_ip 16 ip w8) (\<lambda>_ w9.
            and_then (read_serial w9 2) (\<lambda>_ w10. Return () w10)))
          else Return () w7)))))
        else Return () w2)))"

section \<open>The DA transfer: \<^verbatim>\<open>send_da\<close>\<close>

text \<open>The slice \<^verbatim>\<open>ba[i:j]\<close> for \<open>0 \<le> i\<close> and \<open>0 \<le> j\<close>.\<close>

definition py_slice :: "byte list \<Rightarrow> nat \<Rightarrow> nat \<Rightarrow> byte list" where
  "py_slice ba i j = drop i (take j ba)"

text \<open>
  \<^verbatim>\<open>for i in range(...): write_serial_raw(s, ba[i * 8192:(i + 1) * 8192])\<close> over the
  indices of the range.
\<close>

fun send_chunks :: "nat list \<Rightarrow> byte list \<Rightarrow> world \<Rightarrow> unit result" where
  "send_chunks [] ba w = Return () w"
| "send_chunks (i # rest) ba w =
     and_then (write_serial_raw w (py_slice ba (i * 8192) ((i + 1) * 8192)) False)
       (\<lambda>_ w1. send_chunks rest ba w1)"

text \<open>
  \<^verbatim>\<open>send_da\<close>; \<open>da_file\<close> is the content of the file that \<^verbatim>\<open>load_da\<close> opens.
  \<^verbatim>\<open>ba = load_da()\<close> binds \<open>ba\<close> to the value \<^verbatim>\<open>load_da\<close> returns, and
  \<^verbatim>\<open>len(ba)\<close> raises \<^verbatim>\<open>TypeError\<close> when that value is \<^verbatim>\<open>None\<close>. The number of
  chunks \<^verbatim>\<open>int(len(ba) / 8192)\<close> is the quotient rounded down.
\<close>

definition send_da :: "world \<Rightarrow> byte list \<Rightarrow> unit result" where
  "send_da w da_file =
     and_then (write_serial w ''d7'') (\<lambda>_ w1.
     and_then (read_serial w1 1) (\<lambda>r1 w2.
     if concat r1 = ''d7'' then
       and_then (write_serial w2 ''00200000'') (\<lambda>_ w3.
       and_then (read_serial w3 4) (\<lambda>r2 w4.
       if concat r2 \<noteq> ''00200000'' then Return () w4
       else
         and_then (write_serial w4 ''000361a8'') (\<lambda>_ w5.
         and_then (read_serial w5 4) (\<lambda>r3 w6.
         if concat r3 \<noteq> ''000361a8'' then Return () w6
         else
           and_then (write_serial w6 ''00000100'') (\<lambda>_ w7.
           and_then (read_serial w7 4) (\<lambda>r4 w8.
           if concat r4 \<noteq> ''00000100'' then Return () w8
           else
             and_then (read_serial w8 2) (\<lambda>_ w9.
             (case load_da da_file of
                Inl (e, out) \<Rightarrow> Raise e (w9\<lparr>stdout := stdout w9 @ out\<rparr>)
              | Inr (ba, out, pos) \<Rightarrow>
                  (let w10 = w9\<lparr>stdout := stdout w9 @ out\<rparr> in
                   case ba of
                     None \<Rightarrow> Raise TypeError w10
                   | Some body \<Rightarrow>
                       and_then (send_chunks [0..<length body div 8192] body w10) (\<lambda>_ w11.
                       and_then (read_serial w11 2) (\<lambda>_ w12.
                       and_then (read_serial w12 2) (\<lambda>_ w13. Return () w13))))))))))))
     else Return () w2))"

section \<open>The descriptor table as a part of the world\<close>

text \<open>
  The table in the world a call ends in (the one it started in when it never returns), and
  the property that a call leaves the table as it found it.
\<close>

fun final_table :: "'a result \<Rightarrow> world \<Rightarrow> int \<Rightarrow> chip_config option" where
  "final_table Hang w = chip_map w"
| "final_table (Raise e w') w = chip_map w'"
| "final_table (Return a w') w = chip_map w'"

definition keeps_table :: "'a result \<Rightarrow> world \<Rightarrow> bool" where
  "keeps_table m w \<longleftrightarrow> final_table m w = chip_map w"



section \<open>Sample devices\<close>

text \<open>A port with an empty buffer on which the device will send the given bursts.\<close>

definition device :: "byte list list \<Rightarrow> world" where
  "device bursts = \<lparr>in_buf = [], arrivals = bursts, tx = [], naps = [], stdout = [],
     chip_map = chip_map_static\<rparr>"

text \<open>A device that echoes the command byte 0xfd and then stays silent.\<close>

definition silent_fd :: world where
  "silent_fd = device [[0xfd]]"

text \<open>
  A device that echoes 0xfd and whose answer arrives while the program sleeps for the
  third time; one more byte is there by the time the program reads.
\<close>

definition late_fd :: world where
  "late_fd = device [[0xfd], [], [], [0x07, 0x66, 0x00, 0x00], [0x01]]"





definition wrong_echo :: world where
  "wrong_echo = device [[0x00]]"








text \<open>
  Devices for the handshake. Each magic byte takes two bursts: what ends the busy wait and
  what has arrived by the time the program counts the buffered bytes. \<open>bootrom_dev\<close>
  answers with the reply magic, \<open>echo_dev\<close> returns what it is sent, \<open>garbage_dev\<close>
  ends with a wrong byte, and \<open>preloader_dev\<close> greets with READY before it answers.
\<close>

text \<open>
  What the device does about one magic byte: \<open>k\<close> empty looks of the busy wait, the burst
  \<open>b\<close> that ends it, and the burst \<open>e\<close> that has arrived by the time the program counts
  the buffered bytes.
\<close>

definition answer :: "nat \<Rightarrow> byte list \<Rightarrow> byte list \<Rightarrow> byte list list" where
  "answer k b e = replicate k [] @ [b, e]"

definition bootrom_dev :: world where
  "bootrom_dev = device [[0x5f], [], [0xf5], [], [0xaf], [], [0xfa], []]"

definition echo_dev :: world where
  "echo_dev = device [[0xa0], [], [0x0a], [], [0x50], [], [0x05], []]"

definition garbage_dev :: world where
  "garbage_dev = device [[0x5f], [], [0xf5], [], [0xaf], [], [0x00], []]"

definition preloader_dev :: world where
  "preloader_dev = device [[0x52, 0x45, 0x41, 0x44, 0x59], [],
                           [0x5f], [], [0xf5], [], [0xaf], [], [0xfa], []]"

text \<open>
  Devices for the host qualification: \<open>no_echo_e3\<close> answers the command byte with a
  zero byte, \<open>bad_ack_e3\<close> echoes the command, sends its frames and then answers the
  length frame with four other bytes.
\<close>

definition no_echo_e3 :: world where
  "no_echo_e3 = device [[0x00]]"

definition bad_ack_e3 :: world where
  "bad_ack_e3 = device [[0xe3], [0x00, 0x00], [0x00, 0x00, 0x00, 0x10],
     [192, 168, 0, 1, 0, 0, 0, 0, 0, 0, 0, 0, 0, 0, 0, 0], [0xff, 0xff, 0xff, 0xff]]"

text \<open>
  For the DA transfer: an image of 16384 bytes whose header is the sample header, and a
  device that echoes the command byte and the three frames and sends two status bytes.
\<close>

definition da_image :: "byte list" where
  "da_image = da_sample @ replicate 15616 0"

definition da_dev :: world where
  "da_dev = device [[0xd7], [0x00, 0x20, 0x00, 0x00], [0x00, 0x03, 0x61, 0xa8],
                    [0x00, 0x00, 0x01, 0x00], [0x00, 0x00]]"

section \<open>Hexadecimal text\<close>

lemma hex_val_digit: "n < 16 \<Longrightarrow> hex_val (hex_digit n) = Some n"
proof -
  assume "n < 16"
  then consider "n = 0" | "n = 1" | "n = 2" | "n = 3" | "n = 4" | "n = 5" | "n = 6" | "n = 7"
    | "n = 8" | "n = 9" | "n = 10" | "n = 11" | "n = 12" | "n = 13" | "n = 14" | "n = 15"
    by atomize_elim arith
  then show ?thesis
    by cases (simp_all add: hex_val_def hex_digit_def)
qed

lemma hex_digit_not_space: "n < 16 \<Longrightarrow> \<not> is_space (hex_digit n)"
proof -
  assume "n < 16"
  then consider "n = 0" | "n = 1" | "n = 2" | "n = 3" | "n = 4" | "n = 5" | "n = 6" | "n = 7"
    | "n = 8" | "n = 9" | "n = 10" | "n = 11" | "n = 12" | "n = 13" | "n = 14" | "n = 15"
    by atomize_elim arith
  then show ?thesis
    by cases (simp_all add: hex_digit_def)
qed

lemma fromhex_format_02x [simp]: "fromhex (format_02x b) = Some [b]"
proof -
  have "unat b < 256" using unsigned_less [of b] by simp
  then have "unat b div 16 < 16" by simp
  then show ?thesis
    by (simp add: format_02x_def hex_val_digit hex_digit_not_space)
qed

section \<open>Properties of the DA header parser\<close>

lemma unpack_I_le32: "length bs = 4 \<Longrightarrow> unpack_I bs = Some (le32 bs)"
proof -
  assume "length bs = 4"
  then obtain b0 b1 b2 b3 where "bs = [b0, b1, b2, b3]"
    by (auto simp: length_Suc_conv numeral_eq_Suc)
  then show ?thesis by (simp add: le32_def)
qed

lemma f_read_length: "pos + n \<le> length f \<Longrightarrow> length (f_read f pos n) = n"
  by (simp add: f_read_def)

lemma load_da_loop_lines:
  "pos + k * 220 \<le> length f \<Longrightarrow>
   load_da_loop k f pos out =
     Inr (out @ map (\<lambda>i. chip_line f (pos + i * 220)) [0..<k], pos + k * 220)"
proof (induction k arbitrary: pos out)
  case 0
  then show ?case by simp
next
  case (Suc k)
  from Suc.prems have len: "length (f_read f pos 4) = 4"
    by (intro f_read_length) simp
  from Suc.prems have "(pos + 220) + k * 220 \<le> length f" by simp
  note IH = Suc.IH [OF this]
  have shift: "map (\<lambda>i. chip_line f (pos + i * 220)) [0..<Suc k] =
      chip_line f pos # map (\<lambda>i. chip_line f (pos + 220 + i * 220)) [0..<k]"
    by (simp add: upt_conv_Cons map_Suc_upt [symmetric] del: upt_Suc add: add.assoc)
  have step: "load_da_loop (Suc k) f pos out =
      load_da_loop k f (pos + 220) (out @ [chip_line f pos])"
    by (simp add: unpack_I_le32 [OF len] chip_line_def add.commute)
  show ?case
    unfolding step IH shift by (simp add: add.assoc)
qed

text \<open>
  C8. When the image holds, from offset 0x68 on, a little-endian count \<open>N\<close> and \<open>N\<close>
  records of 220 bytes, \<^verbatim>\<open>load_da\<close> prints, in order, one line per record, made of the
  hexadecimal digits of the little-endian value of the record's first four bytes shifted
  right by 16, and leaves the cursor \<open>4 + N * 220\<close> bytes past the offset 0x68.
\<close>

theorem load_da_header:
  assumes "0x68 + 4 + N * 220 \<le> length f"
    and "le32 (f_read f 0x68 4) = int N"
  shows "load_da f =
    Inr (None,
         map (\<lambda>i. ''    - MT'' @
                hex_digits (nat (drop_bit 16 (le32 (f_read f (0x68 + 4 + i * 220) 4))))) [0..<N],
         0x68 + 4 + N * 220)"
proof -
  from assms(1) have "length (f_read f 0x68 4) = 4"
    by (intro f_read_length) simp
  then have cnt: "unpack_I (f_read f 0x68 4) = Some (int N)"
    using assms(2) by (simp add: unpack_I_le32)
  from assms(1) have "(0x68 + 4) + N * 220 \<le> length f" by simp
  from load_da_loop_lines [OF this, of "[]"] show ?thesis
    by (simp add: load_da_def cnt chip_line_def)
qed

text \<open>
  The sample image with count 3 and leading words 0x67650000, 0x67610000, 0x67680000:
  the lines name 6765, 6761 and 6768, and the cursor ends at \<open>0x68 + 4 + 3 * 220\<close>.
\<close>

theorem load_da_header_witness:
  "0x68 + 4 + 3 * 220 \<le> length da_sample \<and> le32 (f_read da_sample 0x68 4) = int 3
   \<and> load_da da_sample =
       Inr (None, [''    - MT6765'', ''    - MT6761'', ''    - MT6768''], 0x68 + 4 + 3 * 220)"
proof -
  have len: "0x68 + 4 + 3 * 220 \<le> length da_sample"
    by (simp add: da_sample_def da_record_def)
  have cnt: "le32 (f_read da_sample 0x68 4) = int 3"
    by (simp add: da_sample_def da_record_def f_read_def le32_def)
  have r0: "f_read da_sample (0x68 + 4 + 0 * 220) 4 = [0, 0, 0x65, 0x67]"
    by (simp add: da_sample_def da_record_def f_read_def)
  have r1: "f_read da_sample (0x68 + 4 + 1 * 220) 4 = [0, 0, 0x61, 0x67]"
    by (simp add: da_sample_def da_record_def f_read_def)
  have r2: "f_read da_sample (0x68 + 4 + 2 * 220) 4 = [0, 0, 0x68, 0x67]"
    by (simp add: da_sample_def da_record_def f_read_def)
  have up: "[0..<3] = [0, 1, 2::nat]" by code_simp
  have h0: "hex_digits (nat (drop_bit 16 (le32 [0, 0, 0x65, 0x67]))) = ''6765''"
    by (simp add: le32_def hex_digits.simps hex_digit_def)
  have h1: "hex_digits (nat (drop_bit 16 (le32 [0, 0, 0x61, 0x67]))) = ''6761''"
    by (simp add: le32_def hex_digits.simps hex_digit_def)
  have h2: "hex_digits (nat (drop_bit 16 (le32 [0, 0, 0x68, 0x67]))) = ''6768''"
    by (simp add: le32_def hex_digits.simps hex_digit_def)
  from load_da_header [OF len cnt] show ?thesis
    unfolding up using len cnt r0 r1 r2 h0 h1 h2 by simp
qed

section \<open>Reading and writing on the port\<close>

lemma write_serial_raw_tx:
  "write_serial_raw w bs False = Return () (w\<lparr>tx := tx w @ map (\<lambda>b. [b]) bs\<rparr>)"
  by (induction bs arbitrary: w) (simp_all add: s_write_def)

lemma write_serial_format:
  "write_serial w (format_02x c) = Return () (w\<lparr>tx := tx w @ [[c]]\<rparr>)"
  by (simp add: write_serial_def write_serial_raw_tx)

lemma s_read1_buffered: "in_buf w = b # bs \<Longrightarrow> s_read1 w = Return b (w\<lparr>in_buf := bs\<rparr>)"
  by (subst s_read1.simps) simp

lemma s_read1_wait: "in_buf w = [] \<Longrightarrow> arrivals w \<noteq> [] \<Longrightarrow> s_read1 w = s_read1 (tick w)"
  by (subst s_read1.simps) simp

lemma s_read1_hang: "in_buf w = [] \<Longrightarrow> arrivals w = [] \<Longrightarrow> s_read1 w = Hang"
  by (subst s_read1.simps) simp

lemma read_serial_unfold:
  "0 < n \<Longrightarrow> read_serial w n =
     and_then (s_read1 w) (\<lambda>b w1.
     and_then (read_serial w1 (n - 1)) (\<lambda>ret w2.
     Return (format_02x b # ret) w2))"
  by (cases n) (simp_all add: read_serial.simps(2))

lemma read_serial_buffered:
  "n \<le> length (in_buf w) \<Longrightarrow>
   read_serial w n = Return (map format_02x (take n (in_buf w))) (w\<lparr>in_buf := drop n (in_buf w)\<rparr>)"
proof (induction n arbitrary: w)
  case 0
  then show ?case by simp
next
  case (Suc n)
  then obtain b bs where buf: "in_buf w = b # bs"
    by (cases "in_buf w") auto
  with Suc.prems have "n \<le> length (in_buf (w\<lparr>in_buf := bs\<rparr>))" by simp
  from Suc.IH [OF this] buf show ?case
    by (simp add: read_serial.simps(2) s_read1_buffered)
qed

lemma read_serial_all:
  "read_serial w (length (in_buf w)) = Return (map format_02x (in_buf w)) (w\<lparr>in_buf := []\<rparr>)"
  using read_serial_buffered [of "length (in_buf w)" w] by simp

lemma tick_empty_burst:
  "in_buf w = [] \<Longrightarrow> arrivals w = [] # as \<Longrightarrow> tick w = w\<lparr>arrivals := as\<rparr>"
  by (simp add: tick_def)

lemma tick_no_arrivals: "arrivals w = [] \<Longrightarrow> tick w = w"
  by (simp add: tick_def)

lemma tick_silent:
  "in_buf w = [] \<Longrightarrow> arrivals w = replicate k [] \<Longrightarrow> tick w = w\<lparr>arrivals := replicate (k - 1) []\<rparr>"
  by (cases k) (simp_all add: tick_def)

lemma poll_silent:
  "in_buf w = [] \<Longrightarrow> arrivals w = replicate k [] \<Longrightarrow> ctr + n = 15 \<Longrightarrow>
   poll ctr w = Return () (w\<lparr>arrivals := replicate (k - Suc n) [],
                              naps := naps w @ replicate (Suc n) 100\<rparr>)"
proof (induction n arbitrary: ctr w k)
  case 0
  then have "ctr = 15" by simp
  with 0 show ?case
    by (subst poll.simps) (simp add: in_waiting_def Let_def tick_silent sleep_def)
next
  case (Suc n)
  let ?w2 = "sleep (tick w) 100"
  have w2: "?w2 = w\<lparr>arrivals := replicate (k - 1) [], naps := naps w @ [100]\<rparr>"
    using Suc.prems by (simp add: tick_silent sleep_def)
  have "poll (ctr + 1) ?w2 = Return () (?w2\<lparr>arrivals := replicate ((k - 1) - Suc n) [],
                              naps := naps ?w2 @ replicate (Suc n) 100\<rparr>)"
    using Suc.prems by (intro Suc.IH) (simp_all add: w2)
  then have rec: "poll (ctr + 1) ?w2 = Return () (w\<lparr>arrivals := replicate (k - Suc (Suc n)) [],
                              naps := naps w @ replicate (Suc (Suc n)) 100\<rparr>)"
    by (simp add: w2)
  from Suc.prems have "ctr \<noteq> 15" "\<not> 15 < ctr" by simp_all
  with Suc.prems rec show ?case
    by (subst poll.simps) (simp add: in_waiting_def Let_def tick_silent)
qed

lemma poll_data:
  "in_buf w = [] \<Longrightarrow> arrivals w = replicate k [] @ d # rest \<Longrightarrow> d \<noteq> [] \<Longrightarrow> ctr + k \<le> 15 \<Longrightarrow>
   poll ctr w = Return () (w\<lparr>in_buf := d, arrivals := rest,
                              naps := naps w @ replicate k 100\<rparr>)"
proof (induction k arbitrary: ctr w)
  case 0
  then show ?case
    by (subst poll.simps) (simp add: in_waiting_def Let_def tick_def)
next
  case (Suc k)
  let ?w2 = "sleep (tick w) 100"
  have w2: "?w2 = w\<lparr>arrivals := replicate k [] @ d # rest, naps := naps w @ [100]\<rparr>"
    using Suc.prems by (simp add: tick_def sleep_def)
  have "poll (ctr + 1) ?w2 = Return () (?w2\<lparr>in_buf := d, arrivals := rest,
                              naps := naps ?w2 @ replicate k 100\<rparr>)"
    using Suc.prems by (intro Suc.IH) (simp_all add: w2)
  then have rec: "poll (ctr + 1) ?w2 = Return () (w\<lparr>in_buf := d, arrivals := rest,
                              naps := naps w @ replicate (Suc k) 100\<rparr>)"
    by (simp add: w2)
  from Suc.prems have "ctr \<noteq> 15" "\<not> 15 < ctr" by simp_all
  with Suc.prems rec show ?case
    by (subst poll.simps) (simp add: in_waiting_def Let_def tick_def)
qed

lemma read_echo:
  "in_buf w = [] \<Longrightarrow> arrivals w = (b # bs) # rest \<Longrightarrow>
   read_serial w 1 = Return [format_02x b] (w\<lparr>in_buf := bs, arrivals := rest\<rparr>)"
  by (simp add: read_serial_unfold s_read1_wait s_read1_buffered tick_def)

section \<open>Properties of \<^verbatim>\<open>read_resp\<close>\<close>

text \<open>
  C4, as the code has it. On a port whose device echoes the command byte \<open>c\<close> and then
  sends nothing, \<^verbatim>\<open>read_resp\<close> sleeps 17 times for 100 ms (the settling sleep and one
  sleep after each of 16 empty checks, the counter running from 0 to 15) and then returns
  the empty list without raising. When data \<open>d\<close> is there at a check that follows
  \<open>k \<le> 15\<close> empty ones, it has slept \<open>k + 1\<close> times and returns exactly the bytes
  buffered when it looks at the port for the last time: \<open>d\<close> and what has arrived since.
\<close>

theorem read_resp_poll:
  assumes "in_buf w = []"
  shows "(arrivals w = [c] # replicate k [] \<longrightarrow>
            read_resp w (format_02x c) 100 =
              Return (Some []) (w\<lparr>arrivals := replicate (k - 17) [], tx := tx w @ [[c]],
                                  naps := naps w @ replicate 17 100\<rparr>))
       \<and> (arrivals w = [c] # replicate k [] @ d # rest \<and> d \<noteq> [] \<and> k \<le> 15 \<longrightarrow>
            read_resp w (format_02x c) 100 =
              Return (Some (map format_02x (d @ concat (take 1 rest))))
                (w\<lparr>arrivals := drop 1 rest, tx := tx w @ [[c]],
                   naps := naps w @ replicate (Suc k) 100\<rparr>))"
proof (intro conjI impI)
  assume arr: "arrivals w = [c] # replicate k []"
  let ?w1 = "w\<lparr>tx := tx w @ [[c]]\<rparr>"
  let ?w2 = "w\<lparr>arrivals := replicate k [], tx := tx w @ [[c]]\<rparr>"
  let ?w3 = "w\<lparr>arrivals := replicate k [], tx := tx w @ [[c]], naps := naps w @ [100]\<rparr>"
  let ?w4 = "w\<lparr>arrivals := replicate (k - 16) [], tx := tx w @ [[c]],
                naps := naps w @ replicate 17 100\<rparr>"
  let ?w5 = "w\<lparr>arrivals := replicate (k - 17) [], tx := tx w @ [[c]],
                naps := naps w @ replicate 17 100\<rparr>"
  have n17: "(100::nat) # replicate 16 100 = replicate 17 100"
    by (simp add: numeral_eq_Suc)
  have e: "read_serial ?w1 1 = Return [format_02x c] ?w2"
    using assms arr read_echo [of ?w1 c "[]" "replicate k []"] by simp
  have "poll 0 ?w3 = Return () (?w3\<lparr>arrivals := replicate (k - Suc 15) [],
                              naps := naps ?w3 @ replicate (Suc 15) 100\<rparr>)"
    using assms by (intro poll_silent) simp_all
  then have p: "poll 0 ?w3 = Return () ?w4"
    by (simp add: n17)
  have t: "tick ?w4 = ?w5"
    using assms tick_silent [of ?w4 "k - 16"] by simp
  have "in_buf ?w5 = []" using assms by simp
  then have f: "read_serial ?w5 (length (in_buf ?w5)) = Return [] ?w5"
    by simp
  show "read_resp w (format_02x c) 100 = Return (Some []) ?w5"
    unfolding read_resp_def write_serial_format and_then_simps e
    using p t f by (simp add: sleep_def in_waiting_def Let_def)
next
  assume "arrivals w = [c] # replicate k [] @ d # rest \<and> d \<noteq> [] \<and> k \<le> 15"
  then have arr: "arrivals w = [c] # replicate k [] @ d # rest" and d: "d \<noteq> []" and k: "k \<le> 15"
    by simp_all
  let ?w1 = "w\<lparr>tx := tx w @ [[c]]\<rparr>"
  let ?w2 = "w\<lparr>arrivals := replicate k [] @ d # rest, tx := tx w @ [[c]]\<rparr>"
  let ?w3 = "w\<lparr>arrivals := replicate k [] @ d # rest, tx := tx w @ [[c]],
                naps := naps w @ [100]\<rparr>"
  let ?w4 = "w\<lparr>in_buf := d, arrivals := rest, tx := tx w @ [[c]],
                naps := naps w @ replicate (Suc k) 100\<rparr>"
  let ?w5 = "w\<lparr>in_buf := d @ concat (take 1 rest), arrivals := drop 1 rest, tx := tx w @ [[c]],
                naps := naps w @ replicate (Suc k) 100\<rparr>"
  let ?w6 = "w\<lparr>arrivals := drop 1 rest, tx := tx w @ [[c]],
                naps := naps w @ replicate (Suc k) 100\<rparr>"
  have e: "read_serial ?w1 1 = Return [format_02x c] ?w2"
    using assms arr read_echo [of ?w1 c "[]" "replicate k [] @ d # rest"] by simp
  have "poll 0 ?w3 = Return () (?w3\<lparr>in_buf := d, arrivals := rest,
                              naps := naps ?w3 @ replicate k 100\<rparr>)"
    using assms d k by (intro poll_data) simp_all
  then have p: "poll 0 ?w3 = Return () ?w4"
    by simp
  have t: "tick ?w4 = ?w5"
    by (cases rest) (simp_all add: tick_def)
  have "read_serial ?w5 (length (in_buf ?w5)) =
      Return (map format_02x (in_buf ?w5)) (?w5\<lparr>in_buf := []\<rparr>)"
    by (rule read_serial_all)
  moreover have "?w5\<lparr>in_buf := []\<rparr> = ?w6"
    using assms by simp
  ultimately have f: "read_serial ?w5 (length (in_buf ?w5)) =
      Return (map format_02x (d @ concat (take 1 rest))) ?w6"
    by simp
  show "read_resp w (format_02x c) 100 =
      Return (Some (map format_02x (d @ concat (take 1 rest)))) ?w6"
    unfolding read_resp_def write_serial_format and_then_simps e
    using p t f by (simp add: sleep_def in_waiting_def Let_def)
qed

theorem read_resp_poll_witness:
  "in_buf silent_fd = [] \<and> arrivals silent_fd = [0xfd] # replicate 0 []
   \<and> read_resp silent_fd ''fd'' 100 =
       Return (Some []) (silent_fd\<lparr>arrivals := [], tx := [[0xfd]], naps := replicate 17 100\<rparr>)
   \<and> in_buf late_fd = []
   \<and> arrivals late_fd = [0xfd] # replicate 2 [] @ [0x07, 0x66, 0x00, 0x00] # [[0x01]]
   \<and> [0x07, 0x66, 0x00, 0x00] \<noteq> ([] :: byte list) \<and> (2::nat) \<le> 15
   \<and> read_resp late_fd ''fd'' 100 =
       Return (Some [''07'', ''66'', ''00'', ''00'', ''01''])
         (late_fd\<lparr>arrivals := [], tx := [[0xfd]], naps := replicate 3 100\<rparr>)"
proof -
  have fd: "format_02x 0xfd = ''fd''"
    by (simp add: format_02x_def hex_digit_def)
  have hx: "map format_02x [0x07, 0x66, 0x00, 0x00, 0x01] = [''07'', ''66'', ''00'', ''00'', ''01'']"
    by (simp add: format_02x_def hex_digit_def)
  have a1: "in_buf silent_fd = []" and a2: "arrivals silent_fd = [0xfd] # replicate 0 []"
    by (simp_all add: silent_fd_def device_def)
  have b1: "in_buf late_fd = []"
    and b2: "arrivals late_fd = [0xfd] # replicate 2 [] @ [0x07, 0x66, 0x00, 0x00] # [[0x01]]"
    by (simp_all add: late_fd_def device_def numeral_2_eq_2)
  from read_resp_poll [OF a1, of "0xfd" 0] a2
  have r1: "read_resp silent_fd ''fd'' 100 =
       Return (Some []) (silent_fd\<lparr>arrivals := [], tx := [[0xfd]], naps := replicate 17 100\<rparr>)"
    by (simp add: fd silent_fd_def device_def)
  from read_resp_poll [OF b1, of "0xfd" 2 "[0x07, 0x66, 0x00, 0x00]" "[[0x01]]"] b2
  have r2: "read_resp late_fd ''fd'' 100 =
       Return (Some [''07'', ''66'', ''00'', ''00'', ''01''])
         (late_fd\<lparr>arrivals := [], tx := [[0xfd]], naps := replicate 3 100\<rparr>)"
    using hx by (simp add: fd late_fd_def device_def numeral_3_eq_3)
  from a1 a2 b1 b2 r1 r2 show ?thesis by simp
qed

text \<open>
  On the silent device the program sleeps 17 times, 16 of them in the polling loop: the
  test \<^verbatim>\<open>ctr == 15\<close> comes after the sleep, so the loop waits 1.6 seconds where its
  comment announces 1.5.
\<close>

lemma silent_fd_sleeps:
  "read_resp silent_fd ''fd'' 100 =
     Return (Some []) (silent_fd\<lparr>arrivals := [], tx := [[0xfd]], naps := replicate 17 100\<rparr>)
   \<and> \<not> length (replicate 17 (100::nat)) - 1 \<le> 15"
proof -
  have n17: "replicate 17 (100::nat) =
      [100, 100, 100, 100, 100, 100, 100, 100, 100, 100, 100, 100, 100, 100, 100, 100, 100]"
    by code_simp
  show ?thesis
    unfolding n17
    by (simp add: read_resp_def silent_fd_def device_def write_serial_def hex_val_def
        write_serial_raw_tx read_serial_unfold s_read1_wait s_read1_buffered tick_def
        format_02x_def hex_digit_def sleep_def poll.simps in_waiting_def Let_def)
qed

section \<open>No call but \<^verbatim>\<open>get_chip_id\<close> changes the descriptor table\<close>

named_theorems keeps

lemma keeps_Hang [keeps]: "keeps_table Hang w"
  by (simp add: keeps_table_def)

lemma keeps_Return [keeps]: "chip_map w' = chip_map w \<Longrightarrow> keeps_table (Return a w') w"
  by (simp add: keeps_table_def)

lemma keeps_Raise [keeps]: "chip_map w' = chip_map w \<Longrightarrow> keeps_table (Raise e w') w"
  by (simp add: keeps_table_def)

lemma keeps_trans:
  "chip_map w1 = chip_map w \<Longrightarrow> keeps_table m w1 \<Longrightarrow> keeps_table m w"
  by (cases m) (simp_all add: keeps_table_def)

lemma keeps_and_then [keeps]:
  assumes "keeps_table m w" and "\<And>a w1. keeps_table (f a w1) w1"
  shows "keeps_table (and_then m f) w"
proof (cases m)
  case (Return a w1)
  with assms(1) have "chip_map w1 = chip_map w" by (simp add: keeps_table_def)
  from keeps_trans [OF this assms(2)] Return show ?thesis by simp
qed (use assms(1) in \<open>auto simp: keeps_table_def\<close>)

lemma keeps_if [keeps]:
  "(c \<Longrightarrow> keeps_table a w) \<Longrightarrow> (\<not> c \<Longrightarrow> keeps_table b w) \<Longrightarrow> keeps_table (if c then a else b) w"
  by simp

lemma chip_map_tick [simp]: "chip_map (tick w) = chip_map w"
  by (simp add: tick_def split: list.splits)

lemma chip_map_sleep [simp]: "chip_map (sleep w ms) = chip_map w"
  by (simp add: sleep_def)

lemma chip_map_print [simp]: "chip_map (print w l) = chip_map w"
  by (simp add: print_def)

lemma chip_map_s_write [simp]: "chip_map (s_write w bs) = chip_map w"
  by (simp add: s_write_def)

lemma s_read1_keeps_table: "keeps_table (s_read1 w) w"
proof (induction w rule: s_read1.induct)
  case (1 w)
  show ?case
  proof (cases "in_buf w")
    case Nil
    show ?thesis
    proof (cases "arrivals w = []")
      case True
      with Nil show ?thesis by (simp add: s_read1_hang keeps_Hang)
    next
      case False
      from keeps_trans [OF _ 1 [OF Nil False], of w] Nil False show ?thesis
        by (simp add: s_read1_wait)
    qed
  next
    case (Cons b bs)
    then show ?thesis by (simp add: s_read1_buffered keeps_Return)
  qed
qed

lemmas keeps_s_read1 [keeps] = keeps_trans [OF _ s_read1_keeps_table]

lemma read_serial_keeps_table: "keeps_table (read_serial w n) w"
  by (induction n arbitrary: w) (auto simp: read_serial.simps(2) intro!: keeps)

lemmas keeps_read_serial [keeps] = keeps_trans [OF _ read_serial_keeps_table]

lemma write_serial_raw_keeps_table: "keeps_table (write_serial_raw w bs nw) w"
proof (cases nw)
  case True
  then show ?thesis by (induction bs) (simp_all add: keeps_Return)
next
  case False
  then show ?thesis by (simp add: write_serial_raw_tx keeps_Return)
qed

lemmas keeps_write_serial_raw [keeps] = keeps_trans [OF _ write_serial_raw_keeps_table]

lemma write_serial_keeps_table: "keeps_table (write_serial w d) w"
  by (auto simp: write_serial_def intro!: keeps split: option.splits)

lemmas keeps_write_serial [keeps] = keeps_trans [OF _ write_serial_keeps_table]

lemma poll_keeps_table: "keeps_table (poll ctr w) w"
proof (induction ctr w rule: poll.induct)
  case (1 ctr w)
  show ?case
  proof (cases "in_buf (tick w) \<noteq> [] \<or> ctr = 15 \<or> (15 < ctr \<and> arrivals w = [])")
    case True
    then show ?thesis
      by (subst poll.simps) (auto simp: in_waiting_def Let_def keeps_Hang keeps_Return)
  next
    case False
    then have "keeps_table (poll (ctr + 1) (sleep (tick w) 100)) (sleep (tick w) 100)"
      using 1 [of 0 "tick w" "sleep (tick w) 100"] by (simp add: in_waiting_def Let_def)
    from keeps_trans [OF _ this, of w] False show ?thesis
      by (subst poll.simps) (auto simp: in_waiting_def Let_def)
  qed
qed

lemmas keeps_poll [keeps] = keeps_trans [OF _ poll_keeps_table]

lemma read_resp_keeps_table: "keeps_table (read_resp w cmd ms) w"
  unfolding read_resp_def Let_def in_waiting_def
  by (auto intro!: keeps)

lemmas keeps_read_resp [keeps] = keeps_trans [OF _ read_resp_keeps_table]


lemma write_ip_keeps_table: "keeps_table (write_ip n ip w) w"
  by (induction n arbitrary: w) (auto intro!: keeps)

lemmas keeps_write_ip [keeps] = keeps_trans [OF _ write_ip_keeps_table]


lemma send_chunks_keeps_table: "keeps_table (send_chunks is ba w) w"
  by (induction "is" arbitrary: w) (auto intro!: keeps)

lemmas keeps_send_chunks [keeps] = keeps_trans [OF _ send_chunks_keeps_table]


lemma busy_wait_keeps_table: "keeps_table (busy_wait w) w"
proof (induction w rule: busy_wait.induct)
  case (1 w)
  show ?case
  proof (cases "in_buf (tick w) \<noteq> [] \<or> arrivals w = []")
    case True
    then show ?thesis
      by (subst busy_wait.simps) (auto simp: in_waiting_def Let_def keeps_Hang keeps_Return)
  next
    case False
    then have "keeps_table (busy_wait (tick w)) (tick w)"
      using 1 [of 0 "tick w"] by (simp add: in_waiting_def Let_def)
    from keeps_trans [OF _ this, of w] False show ?thesis
      by (subst busy_wait.simps) (simp add: in_waiting_def Let_def)
  qed
qed

lemmas keeps_busy_wait [keeps] = keeps_trans [OF _ busy_wait_keeps_table]

lemma drain_keeps_table: "keeps_table (drain n rd w) w"
  by (induction n arbitrary: rd w) (auto intro!: keeps)

lemmas keeps_drain [keeps] = keeps_trans [OF _ drain_keeps_table]

lemma send_magic_keeps_table: "keeps_table (send_magic bs rd p t w) w"
  by (induction bs arbitrary: rd p t w) (auto simp: in_waiting_def Let_def intro!: keeps)

lemmas keeps_send_magic [keeps] = keeps_trans [OF _ send_magic_keeps_table]

lemma handshake_loop_keeps_table: "keeps_table (handshake_loop rd p t w) w"
proof (induction rd p t w rule: handshake_loop.induct)
  case (1 rdata is_preloader retry w)
  show ?case
  proof (cases retry)
    case False
    then show ?thesis by (subst handshake_loop.simps) (simp add: keeps_Return)
  next
    case True
    show ?thesis
    proof (cases "send_magic cmd_bytes [] is_preloader retry w")
      case Hang
      with True show ?thesis by (subst handshake_loop.simps) (simp add: keeps_Hang)
    next
      case (Raise e w')
      with send_magic_keeps_table [of cmd_bytes "[]" is_preloader retry w] True show ?thesis
        by (subst handshake_loop.simps) (simp add: keeps_table_def)
    next
      case (Return x w')
      obtain rd' p' t' where x: "x = (rd', p', t')" by (cases x)
      then have x': "(rd', p', t') = x" by simp
      from send_magic_keeps_table [of cmd_bytes "[]" is_preloader retry w] Return
      have "chip_map w' = chip_map w" by (simp add: keeps_table_def)
      from keeps_trans [OF this 1 [OF True Return x' refl]] True Return x show ?thesis
        by (subst handshake_loop.simps) simp
    qed
  qed
qed

lemmas keeps_handshake_loop [keeps] = keeps_trans [OF _ handshake_loop_keeps_table]


section \<open>Text that the port produces\<close>

lemma fromhex_byte_append:
  "fromhex (format_02x b @ cs) = (case fromhex cs of None \<Rightarrow> None | Some r \<Rightarrow> Some (b # r))"
proof -
  have "unat b < 256" using unsigned_less [of b] by simp
  then have "unat b div 16 < 16" by simp
  then show ?thesis
    by (cases "fromhex cs") (simp_all add: format_02x_def hex_val_digit hex_digit_not_space)
qed

lemma fromhex_hex [simp]: "fromhex (concat (map format_02x bs)) = Some bs"
  by (induction bs) (simp_all add: fromhex_byte_append)

lemma hex_inj: "concat (map format_02x as) = concat (map format_02x bs) \<longleftrightarrow> as = bs"
proof
  assume "concat (map format_02x as) = concat (map format_02x bs)"
  then have "fromhex (concat (map format_02x as)) = fromhex (concat (map format_02x bs))"
    by simp
  then show "as = bs" by simp
qed simp

lemma format_02x_inj: "format_02x a = format_02x b \<longleftrightarrow> a = b"
  using hex_inj [of "[a]" "[b]"] by simp

lemma read_serial_hex:
  "read_serial w n = Return r w' \<Longrightarrow> \<exists>bs. r = map format_02x bs"
proof (induction n arbitrary: w r w')
  case 0
  then show ?case by simp
next
  case (Suc n)
  from Suc.prems obtain b w1 where "s_read1 w = Return b w1"
    and rest: "and_then (read_serial w1 n) (\<lambda>ret w2. Return (format_02x b # ret) w2) = Return r w'"
    by (auto simp: read_serial.simps(2) elim: and_then_ReturnE)
  from rest obtain ret w2 where "read_serial w1 n = Return ret w2" and r: "r = format_02x b # ret"
    by (auto elim: and_then_ReturnE)
  from Suc.IH [OF this(1)] obtain bs where "ret = map format_02x bs" ..
  with r have "r = map format_02x (b # bs)" by simp
  then show ?case ..
qed


lemma bstr_to_int_hex [simp]:
  "bstr_to_int (Some (map format_02x bs)) w = Return (from_bytes_big bs) w"
  by (simp add: bstr_to_int_def)



section \<open>Properties of \<^verbatim>\<open>get_chip_id\<close>\<close>






lemmas port_eval =
  read_resp_def write_serial_def hex_val_def write_serial_raw_tx read_serial_unfold
  s_read1_wait s_read1_buffered s_read1_hang tick_def format_02x_def hex_digit_def sleep_def
  poll.simps in_waiting_def Let_def device_def












text \<open>
  C7, as the code has it. When the byte read back differs from the command byte,
  \<^verbatim>\<open>read_resp\<close> raises nothing: it returns \<^verbatim>\<open>None\<close> without sleeping or reading
  further. The failure only shows in the caller, where \<^verbatim>\<open>bstr_to_int\<close> raises
  \<^verbatim>\<open>TypeError\<close> on that value.
\<close>

theorem read_resp_echo_mismatch:
  assumes "in_buf w = []" and "arrivals w = (b # bs) # rest" and "b \<noteq> c"
  shows "read_resp w (format_02x c) ms =
           Return None (w\<lparr>in_buf := bs, arrivals := rest, tx := tx w @ [[c]]\<rparr>)"
proof -
  let ?w1 = "w\<lparr>tx := tx w @ [[c]]\<rparr>"
  have e: "read_serial ?w1 1 = Return [format_02x b] (?w1\<lparr>in_buf := bs, arrivals := rest\<rparr>)"
    using assms(1,2) by (intro read_echo) simp_all
  from assms(3) have "format_02x b \<noteq> format_02x c"
    by (simp add: format_02x_inj)
  then show ?thesis
    unfolding read_resp_def write_serial_format and_then_simps e by simp
qed

theorem read_resp_echo_mismatch_witness:
  "in_buf wrong_echo = [] \<and> arrivals wrong_echo = [0x00] # [] \<and> (0x00 :: byte) \<noteq> 0xfd
   \<and> read_resp wrong_echo ''fd'' 100 = Return None (wrong_echo\<lparr>arrivals := [], tx := [[0xfd]]\<rparr>)
   \<and> get_chip_id wrong_echo = Raise TypeError (wrong_echo\<lparr>arrivals := [], tx := [[0xfd]]\<rparr>)"
proof -
  have fd: "format_02x 0xfd = ''fd''"
    by (simp add: format_02x_def hex_digit_def)
  have a: "in_buf wrong_echo = []" "arrivals wrong_echo = [0x00] # []" "(0x00 :: byte) \<noteq> 0xfd"
    by (simp_all add: wrong_echo_def device_def)
  from read_resp_echo_mismatch [OF a, of 100]
  have r: "read_resp wrong_echo ''fd'' 100 = Return None (wrong_echo\<lparr>arrivals := [], tx := [[0xfd]]\<rparr>)"
    by (simp add: fd wrong_echo_def device_def)
  then have "get_chip_id wrong_echo = Raise TypeError (wrong_echo\<lparr>arrivals := [], tx := [[0xfd]]\<rparr>)"
    by (simp add: get_chip_id_def Let_def bstr_to_int_def)
  with a r show ?thesis by simp
qed

section \<open>The descriptor table under \<^verbatim>\<open>get_chip_id\<close>\<close>











section \<open>Properties of the handshake\<close>

lemma busy_wait_data: "in_buf (tick w) \<noteq> [] \<Longrightarrow> busy_wait w = Return () (tick w)"
  by (subst busy_wait.simps) (simp add: in_waiting_def Let_def)

lemma busy_wait_wait:
  "in_buf (tick w) = [] \<Longrightarrow> arrivals w \<noteq> [] \<Longrightarrow> busy_wait w = busy_wait (tick w)"
  by (subst busy_wait.simps) (simp add: in_waiting_def Let_def)

lemma busy_wait_hang: "in_buf (tick w) = [] \<Longrightarrow> arrivals w = [] \<Longrightarrow> busy_wait w = Hang"
  by (subst busy_wait.simps) (simp add: in_waiting_def Let_def)

lemma drain_buffered:
  "n \<le> length (in_buf w) \<Longrightarrow>
   drain n rd w = Return (rd @ concat (map format_02x (take n (in_buf w))))
                    (w\<lparr>in_buf := drop n (in_buf w)\<rparr>)"
proof (induction n arbitrary: rd w)
  case 0
  then show ?case by simp
next
  case (Suc n)
  then obtain b bs where buf: "in_buf w = b # bs"
    by (cases "in_buf w") auto
  with Suc.prems have "n \<le> length (in_buf (w\<lparr>in_buf := bs\<rparr>))" by simp
  from Suc.IH [OF this] buf show ?case
    by (simp add: read_serial_unfold s_read1_buffered)
qed

lemma send_magic_exchange:
  assumes "in_buf w = []" and "arrivals w = (g # gs) # e # rest"
  shows "send_magic (b # bs) rd p t w =
     (if rd @ hexs (g # gs @ e) = preloader_greet
      then Return (rd @ hexs (g # gs @ e), True, t) (w\<lparr>arrivals := rest, tx := tx w @ [[b]]\<rparr>)
      else send_magic bs (rd @ hexs (g # gs @ e)) p False
             (w\<lparr>arrivals := rest, tx := tx w @ [[b]]\<rparr>))"
proof -
  let ?w1 = "w\<lparr>tx := tx w @ [[b]]\<rparr>"
  let ?w2 = "w\<lparr>in_buf := g # gs, arrivals := e # rest, tx := tx w @ [[b]]\<rparr>"
  let ?w3 = "w\<lparr>in_buf := gs, arrivals := e # rest, tx := tx w @ [[b]]\<rparr>"
  let ?w4 = "w\<lparr>in_buf := gs @ e, arrivals := rest, tx := tx w @ [[b]]\<rparr>"
  let ?w5 = "w\<lparr>arrivals := rest, tx := tx w @ [[b]]\<rparr>"
  have bw: "busy_wait ?w1 = Return () ?w2"
    using assms by (simp add: busy_wait_data tick_def)
  have r1: "read_serial ?w2 1 = Return [format_02x g] ?w3"
    by (simp add: read_serial_unfold s_read1_buffered)
  have iw: "in_waiting ?w3 = (length (gs @ e), ?w4)"
    by (simp add: in_waiting_def tick_def)
  have "drain (length (in_buf ?w4)) (rd @ format_02x g) ?w4 =
      Return ((rd @ format_02x g) @ concat (map format_02x (take (length (in_buf ?w4)) (in_buf ?w4))))
        (?w4\<lparr>in_buf := drop (length (in_buf ?w4)) (in_buf ?w4)\<rparr>)"
    by (rule drain_buffered) simp
  moreover have "?w4\<lparr>in_buf := []\<rparr> = ?w5" using assms(1) by simp
  ultimately have dr: "drain (length (gs @ e)) (rd @ concat [format_02x g]) ?w4 =
      Return (rd @ hexs (g # gs @ e)) ?w5"
    by (simp add: hexs_def)
  show ?thesis
    unfolding send_magic.simps write_serial_format and_then_simps bw r1 iw prod.case dr
    by simp
qed

lemma hexs_simps [simp]: "hexs [] = []" "hexs (b # bs) = format_02x b @ hexs bs"
  "hexs (as @ bs) = hexs as @ hexs bs"
  by (simp_all add: hexs_def)

lemma hexs_inj [simp]: "hexs as = hexs bs \<longleftrightarrow> as = bs"
  unfolding hexs_def by (rule hex_inj)

lemma preloader_greet_hexs: "preloader_greet = hexs [0x52, 0x45, 0x41, 0x44, 0x59]"
  by (simp add: preloader_greet_def hexs_def)

lemma handshake_magic_hexs: "handshake_magic = hexs [0x5f, 0xf5, 0xaf, 0xfa]"
  by (simp add: handshake_magic_def format_02x_def hex_digit_def)

lemma data_hexs: "data = hexs [0xa0, 0x0a, 0x50, 0x05]"
  by (simp add: data_def format_02x_def hex_digit_def)

lemma cmd_bytes_fromhex: "fromhex data = Some cmd_bytes"
  unfolding data_hexs cmd_bytes_def hexs_def by (rule fromhex_hex)

lemma read_serial_hexs:
  "read_serial w n = Return r w' \<Longrightarrow> \<exists>bs. concat r = hexs bs"
  using read_serial_hex [of w n r w'] by (auto simp: hexs_def)

lemma drain_hexs:
  "drain n (hexs acc) w = Return rd w' \<Longrightarrow> \<exists>resp. rd = hexs resp"
proof (induction n arbitrary: acc w)
  case 0
  then show ?case by auto
next
  case (Suc n)
  from Suc.prems obtain r w1 where r: "read_serial w 1 = Return r w1"
    and rest: "drain n (hexs acc @ concat r) w1 = Return rd w'"
    by (auto elim: and_then_ReturnE)
  from read_serial_hexs [OF r] obtain bs where "concat r = hexs bs" ..
  with rest have "drain n (hexs (acc @ bs)) w1 = Return rd w'" by simp
  then show ?case by (rule Suc.IH)
qed

lemma send_magic_ConsE:
  assumes "send_magic (b # bs) rd p t w = Return x w'"
  obtains w2 r w3 rd' w5 where "read_serial w2 1 = Return r w3"
    and "drain (length (in_buf (tick w3))) (rd @ concat r) (tick w3) = Return rd' w5"
    and "(if rd' = preloader_greet then Return (rd', True, t) w5
          else send_magic bs rd' p False w5) = Return x w'"
proof -
  from assms obtain u1 w1 where
    b1: "and_then (busy_wait w1) (\<lambda>_ w2.
     and_then (read_serial w2 1) (\<lambda>r w3.
     (case in_waiting w3 of (rb_count, w4) \<Rightarrow>
     and_then (drain rb_count (rd @ concat r) w4) (\<lambda>rdata' w5.
     if rdata' = preloader_greet then Return (rdata', True, t) w5
     else send_magic bs rdata' p False w5)))) = Return x w'"
    by (auto elim: and_then_ReturnE)
  from b1 obtain u2 w2 where
    b2: "and_then (read_serial w2 1) (\<lambda>r w3.
     (case in_waiting w3 of (rb_count, w4) \<Rightarrow>
     and_then (drain rb_count (rd @ concat r) w4) (\<lambda>rdata' w5.
     if rdata' = preloader_greet then Return (rdata', True, t) w5
     else send_magic bs rdata' p False w5))) = Return x w'"
    by (auto elim: and_then_ReturnE)
  from b2 obtain r w3 where
    a3: "read_serial w2 1 = Return r w3" and
    b3: "(case in_waiting w3 of (rb_count, w4) \<Rightarrow>
     and_then (drain rb_count (rd @ concat r) w4) (\<lambda>rdata' w5.
     if rdata' = preloader_greet then Return (rdata', True, t) w5
     else send_magic bs rdata' p False w5)) = Return x w'"
    by (auto elim: and_then_ReturnE)
  from b3 obtain rd' w5 where
    a4: "drain (length (in_buf (tick w3))) (rd @ concat r) (tick w3) = Return rd' w5" and
    b4: "(if rd' = preloader_greet then Return (rd', True, t) w5
          else send_magic bs rd' p False w5) = Return x w'"
    by (auto simp: in_waiting_def Let_def elim: and_then_ReturnE)
  from a3 a4 b4 show thesis by (rule that)
qed

lemma send_magic_hexs:
  "send_magic bs (hexs acc) p t w = Return (rd, p', t') w' \<Longrightarrow> \<exists>resp. rd = hexs resp"
proof (induction bs arbitrary: acc p t w)
  case Nil
  then show ?case by auto
next
  case (Cons b bs)
  from Cons.prems obtain w2 r w3 rd' w5 where r: "read_serial w2 1 = Return r w3"
    and d: "drain (length (in_buf (tick w3))) (hexs acc @ concat r) (tick w3) = Return rd' w5"
    and k: "(if rd' = preloader_greet then Return (rd', True, t) w5
          else send_magic bs rd' p False w5) = Return (rd, p', t') w'"
    by (rule send_magic_ConsE)
  from read_serial_hexs [OF r] obtain cs where "concat r = hexs cs" ..
  with d have "drain (length (in_buf (tick w3))) (hexs (acc @ cs)) (tick w3) = Return rd' w5"
    by simp
  from drain_hexs [OF this] obtain resp' where rd': "rd' = hexs resp'" ..
  show ?case
  proof (cases "rd' = preloader_greet")
    case True
    with k rd' show ?thesis by auto
  next
    case False
    with k rd' have "send_magic bs (hexs resp') p False w5 = Return (rd, p', t') w'" by simp
    then show ?thesis by (rule Cons.IH)
  qed
qed

lemma handshake_loop_hexs:
  "handshake_loop rd0 p t w = Return (rd, p') w' \<Longrightarrow> \<exists>acc. rd0 = hexs acc \<Longrightarrow>
   \<exists>resp. rd = hexs resp"
proof (induction rd0 p t w rule: handshake_loop.induct)
  case (1 rdata is_preloader retry w)
  show ?case
  proof (cases retry)
    case False
    with 1(2,3) show ?thesis by (subst (asm) handshake_loop.simps) auto
  next
    case True
    with 1(2) obtain x w1 where sm: "send_magic cmd_bytes [] is_preloader retry w = Return x w1"
      by (subst (asm) handshake_loop.simps) (auto split: result.splits)
    obtain rd1 p1 t1 where x: "x = (rd1, p1, t1)" by (cases x)
    from sm x have "send_magic cmd_bytes (hexs []) is_preloader retry w = Return (rd1, p1, t1) w1"
      by simp
    from send_magic_hexs [OF this] have h: "\<exists>acc. rd1 = hexs acc" .
    from 1(2) True sm x have "handshake_loop rd1 p1 t1 w1 = Return (rd, p') w'"
      by (subst (asm) handshake_loop.simps) simp
    from 1(1) [OF True sm x [symmetric] refl this h] show ?thesis .
  qed
qed

text \<open>
  C6, as the code has it. When what has been accumulated after a magic byte is the text of
  READY, the pass records the Preloader and ends at once: none of the remaining magic
  bytes of that pass is sent. When this happens after the first magic byte, the loop runs
  a new pass, which clears the accumulator and sends all four magic bytes again.
\<close>

theorem handshake_ready:
  assumes "in_buf w = []" and "arrivals w = (g # gs) # e # rest"
  shows "(rd @ hexs (g # gs @ e) = preloader_greet \<longrightarrow>
            send_magic (b # remaining) rd is_preloader retry w =
              Return (preloader_greet, True, retry) (w\<lparr>arrivals := rest, tx := tx w @ [[b]]\<rparr>))
       \<and> (g # gs @ e = [0x52, 0x45, 0x41, 0x44, 0x59] \<longrightarrow>
            handshake_loop rdata is_preloader True w =
              (case send_magic [0xa0, 0x0a, 0x50, 0x05] [] True True
                      (w\<lparr>arrivals := rest, tx := tx w @ [[0xa0]]\<rparr>) of
                 Hang \<Rightarrow> Hang
               | Raise err w' \<Rightarrow> Raise err w'
               | Return (rdata', is_preloader', retry') w' \<Rightarrow>
                   handshake_loop rdata' is_preloader' retry' w'))"
proof (intro conjI impI)
  assume h: "rd @ hexs (g # gs @ e) = preloader_greet"
  show "send_magic (b # remaining) rd is_preloader retry w =
              Return (preloader_greet, True, retry) (w\<lparr>arrivals := rest, tx := tx w @ [[b]]\<rparr>)"
    unfolding send_magic_exchange [OF assms] h by simp
next
  assume ready: "g # gs @ e = [0x52, 0x45, 0x41, 0x44, 0x59]"
  let ?w5 = "w\<lparr>arrivals := rest, tx := tx w @ [[0xa0]]\<rparr>"
  from ready have h: "[] @ hexs (g # gs @ e) = preloader_greet"
    by (simp only: preloader_greet_hexs append_Nil)
  have first: "send_magic cmd_bytes [] is_preloader True w =
      Return (preloader_greet, True, True) ?w5"
    unfolding cmd_bytes_def send_magic_exchange [OF assms] h by simp
  have "handshake_loop rdata is_preloader True w = handshake_loop preloader_greet True True ?w5"
    by (subst handshake_loop.simps) (simp add: first)
  also have "\<dots> = (case send_magic cmd_bytes [] True True ?w5 of
                 Hang \<Rightarrow> Hang
               | Raise err w' \<Rightarrow> Raise err w'
               | Return (rdata', is_preloader', retry') w' \<Rightarrow>
                   handshake_loop rdata' is_preloader' retry' w')"
    by (subst handshake_loop.simps) simp
  finally show "handshake_loop rdata is_preloader True w =
              (case send_magic [0xa0, 0x0a, 0x50, 0x05] [] True True ?w5 of
                 Hang \<Rightarrow> Hang
               | Raise err w' \<Rightarrow> Raise err w'
               | Return (rdata', is_preloader', retry') w' \<Rightarrow>
                   handshake_loop rdata' is_preloader' retry' w')"
    by (simp only: cmd_bytes_def)
qed

lemmas hs_eval =
  handshake_loop.simps cmd_bytes_def hexs_def preloader_greet_def
  busy_wait_data busy_wait_wait busy_wait_hang port_eval

lemma bootrom_loop:
  "handshake_loop [] False True bootrom_dev =
     Return (hexs [0x5f, 0xf5, 0xaf, 0xfa], False)
       (bootrom_dev\<lparr>arrivals := [], tx := [[0xa0], [0x0a], [0x50], [0x05]]\<rparr>)"
  by (simp add: bootrom_dev_def hs_eval)

lemma echo_loop:
  "handshake_loop [] False True echo_dev =
     Return (hexs [0xa0, 0x0a, 0x50, 0x05], False)
       (echo_dev\<lparr>arrivals := [], tx := [[0xa0], [0x0a], [0x50], [0x05]]\<rparr>)"
  by (simp add: echo_dev_def hs_eval)

lemma garbage_loop:
  "handshake_loop [] False True garbage_dev =
     Return (hexs [0x5f, 0xf5, 0xaf, 0x00], False)
       (garbage_dev\<lparr>arrivals := [], tx := [[0xa0], [0x0a], [0x50], [0x05]]\<rparr>)"
  by (simp add: garbage_dev_def hs_eval)

lemma preloader_loop:
  "handshake_loop [] False True preloader_dev =
     Return (hexs [0x5f, 0xf5, 0xaf, 0xfa], True)
       (preloader_dev\<lparr>arrivals := [], tx := [[0xa0], [0xa0], [0x0a], [0x50], [0x05]]\<rparr>)"
  by (simp add: preloader_dev_def hs_eval)

lemma busy_wait_skip:
  "in_buf w = [] \<Longrightarrow> arrivals w = replicate k [] @ b # rest \<Longrightarrow> b \<noteq> [] \<Longrightarrow>
   busy_wait w = Return () (w\<lparr>in_buf := b, arrivals := rest\<rparr>)"
proof (induction k arbitrary: w)
  case 0
  then show ?case by (simp add: busy_wait_data tick_def)
next
  case (Suc k)
  then have t: "tick w = w\<lparr>arrivals := replicate k [] @ b # rest\<rparr>"
    by (simp add: tick_def)
  with Suc.prems have "busy_wait w = busy_wait (w\<lparr>arrivals := replicate k [] @ b # rest\<rparr>)"
    by (simp add: busy_wait_wait)
  also have "\<dots> = Return () (w\<lparr>in_buf := b, arrivals := rest\<rparr>)"
    using Suc.IH [of "w\<lparr>arrivals := replicate k [] @ b # rest\<rparr>"] Suc.prems by simp
  finally show ?case .
qed

lemma send_magic_answer:
  assumes "in_buf w = []" and "arrivals w = answer k b e @ rest" and "b \<noteq> []"
  shows "send_magic (c # cs) rd p t w =
     (if rd @ hexs (b @ e) = preloader_greet
      then Return (rd @ hexs (b @ e), True, t) (w\<lparr>arrivals := rest, tx := tx w @ [[c]]\<rparr>)
      else send_magic cs (rd @ hexs (b @ e)) p False
             (w\<lparr>arrivals := rest, tx := tx w @ [[c]]\<rparr>))"
proof -
  from assms(3) obtain g gs where b: "b = g # gs" by (cases b) auto
  let ?w1 = "w\<lparr>tx := tx w @ [[c]]\<rparr>"
  let ?w2 = "w\<lparr>in_buf := g # gs, arrivals := e # rest, tx := tx w @ [[c]]\<rparr>"
  let ?w3 = "w\<lparr>in_buf := gs, arrivals := e # rest, tx := tx w @ [[c]]\<rparr>"
  let ?w4 = "w\<lparr>in_buf := gs @ e, arrivals := rest, tx := tx w @ [[c]]\<rparr>"
  let ?w5 = "w\<lparr>arrivals := rest, tx := tx w @ [[c]]\<rparr>"
  have "busy_wait ?w1 = Return () (?w1\<lparr>in_buf := g # gs, arrivals := e # rest\<rparr>)"
    using assms(1,2) by (intro busy_wait_skip [where k = k]) (simp_all add: answer_def b)
  then have bw: "busy_wait ?w1 = Return () ?w2" by simp
  have r1: "read_serial ?w2 1 = Return [format_02x g] ?w3"
    by (simp add: read_serial_unfold s_read1_buffered)
  have iw: "in_waiting ?w3 = (length (gs @ e), ?w4)"
    by (simp add: in_waiting_def tick_def)
  have "drain (length (in_buf ?w4)) (rd @ format_02x g) ?w4 =
      Return ((rd @ format_02x g) @ concat (map format_02x (take (length (in_buf ?w4)) (in_buf ?w4))))
        (?w4\<lparr>in_buf := drop (length (in_buf ?w4)) (in_buf ?w4)\<rparr>)"
    by (rule drain_buffered) simp
  moreover have "?w4\<lparr>in_buf := []\<rparr> = ?w5" using assms(1) by simp
  ultimately have dr: "drain (length (gs @ e)) (rd @ concat [format_02x g]) ?w4 =
      Return (rd @ hexs (b @ e)) ?w5"
    by (simp add: hexs_def b)
  show ?thesis
    unfolding send_magic.simps write_serial_format and_then_simps bw r1 iw prod.case dr
    by simp
qed

lemma magic_pass:
  assumes buf: "in_buf w = []"
    and arr: "arrivals w = answer k1 b1 e1 @ answer k2 b2 e2 @ answer k3 b3 e3
                 @ answer k4 b4 e4 @ rest"
    and ne: "b1 \<noteq> []" "b2 \<noteq> []" "b3 \<noteq> []" "b4 \<noteq> []"
    and nr: "b1 @ e1 \<noteq> [0x52, 0x45, 0x41, 0x44, 0x59]"
            "b1 @ e1 @ b2 @ e2 \<noteq> [0x52, 0x45, 0x41, 0x44, 0x59]"
            "b1 @ e1 @ b2 @ e2 @ b3 @ e3 \<noteq> [0x52, 0x45, 0x41, 0x44, 0x59]"
  shows "\<exists>p' t'. send_magic cmd_bytes [] p t w =
           Return (hexs (b1 @ e1 @ b2 @ e2 @ b3 @ e3 @ b4 @ e4), p', t')
             (w\<lparr>arrivals := rest, tx := tx w @ [[0xa0], [0x0a], [0x50], [0x05]]\<rparr>)
         \<and> \<not> t' \<and> (hexs (b1 @ e1 @ b2 @ e2 @ b3 @ e3 @ b4 @ e4) = handshake_magic \<longrightarrow> p' = p)"
proof -
  let ?a1 = "answer k2 b2 e2 @ answer k3 b3 e3 @ answer k4 b4 e4 @ rest"
  let ?a2 = "answer k3 b3 e3 @ answer k4 b4 e4 @ rest"
  let ?a3 = "answer k4 b4 e4 @ rest"
  let ?w1 = "w\<lparr>arrivals := ?a1, tx := tx w @ [[0xa0]]\<rparr>"
  let ?w2 = "w\<lparr>arrivals := ?a2, tx := tx w @ [[0xa0], [0x0a]]\<rparr>"
  let ?w3 = "w\<lparr>arrivals := ?a3, tx := tx w @ [[0xa0], [0x0a], [0x50]]\<rparr>"
  let ?w4 = "w\<lparr>arrivals := rest, tx := tx w @ [[0xa0], [0x0a], [0x50], [0x05]]\<rparr>"
  let ?r1 = "hexs (b1 @ e1)"
  let ?r2 = "hexs (b1 @ e1 @ b2 @ e2)"
  let ?r3 = "hexs (b1 @ e1 @ b2 @ e2 @ b3 @ e3)"
  let ?r4 = "hexs (b1 @ e1 @ b2 @ e2 @ b3 @ e3 @ b4 @ e4)"
  from nr have n: "?r1 \<noteq> preloader_greet" "?r2 \<noteq> preloader_greet" "?r3 \<noteq> preloader_greet"
    unfolding preloader_greet_hexs hexs_inj by simp_all
  have s1: "send_magic cmd_bytes [] p t w = send_magic [0x0a, 0x50, 0x05] ?r1 p False ?w1"
    unfolding cmd_bytes_def using send_magic_answer [OF buf arr ne(1), of "0xa0" _ "[]" p t] n(1)
    by (simp del: hexs_simps send_magic.simps)
  have s2: "send_magic [0x0a, 0x50, 0x05] ?r1 p False ?w1 = send_magic [0x50, 0x05] ?r2 p False ?w2"
    using send_magic_answer [of ?w1 k2 b2 e2 ?a2, OF _ _ ne(2), of "0x0a" _ ?r1 p False] n(2) buf
    by (simp del: hexs_simps send_magic.simps add: hexs_simps(3) [symmetric])
  have s3: "send_magic [0x50, 0x05] ?r2 p False ?w2 = send_magic [0x05] ?r3 p False ?w3"
    using send_magic_answer [of ?w2 k3 b3 e3 ?a3, OF _ _ ne(3), of "0x50" _ ?r2 p False] n(3) buf
    by (simp del: hexs_simps send_magic.simps add: hexs_simps(3) [symmetric])
  have s4: "send_magic [0x05] ?r3 p False ?w3 =
      (if ?r4 = preloader_greet then Return (?r4, True, False) ?w4
       else Return (?r4, p, False) ?w4)"
    using send_magic_answer [of ?w3 k4 b4 e4 rest, OF _ _ ne(4), of "0x05" "[]" ?r3 p False] buf
    by (simp del: hexs_simps add: hexs_simps(3) [symmetric])
  have "preloader_greet \<noteq> handshake_magic"
    unfolding preloader_greet_hexs handshake_magic_hexs hexs_inj by simp
  then show ?thesis
    unfolding s1 s2 s3 s4 by auto
qed

lemma handshake_outcome_flag:
  "resp \<noteq> [0x5f, 0xf5, 0xaf, 0xfa] \<Longrightarrow>
   handshake_outcome resp a port w = handshake_outcome resp b port w"
  by (simp add: handshake_outcome_def)

lemma try_handshake_loop:
  assumes "handshake_loop [] False True w = Return (hexs resp, pre) w'"
  shows "try_handshake w port = handshake_outcome resp pre port w'"
  unfolding try_handshake_def assms and_then_simps prod.case handshake_magic_hexs data_hexs
    hexs_inj handshake_outcome_def ..

lemma magic_loop:
  assumes buf: "in_buf w = []"
    and arr: "arrivals w = answer k1 b1 e1 @ answer k2 b2 e2 @ answer k3 b3 e3
                 @ answer k4 b4 e4 @ rest"
    and ne: "b1 \<noteq> []" "b2 \<noteq> []" "b3 \<noteq> []" "b4 \<noteq> []"
    and nr: "b1 @ e1 \<noteq> [0x52, 0x45, 0x41, 0x44, 0x59]"
            "b1 @ e1 @ b2 @ e2 \<noteq> [0x52, 0x45, 0x41, 0x44, 0x59]"
            "b1 @ e1 @ b2 @ e2 @ b3 @ e3 \<noteq> [0x52, 0x45, 0x41, 0x44, 0x59]"
  shows "\<exists>p'. handshake_loop rd p True w =
           Return (hexs (b1 @ e1 @ b2 @ e2 @ b3 @ e3 @ b4 @ e4), p')
             (w\<lparr>arrivals := rest, tx := tx w @ [[0xa0], [0x0a], [0x50], [0x05]]\<rparr>)
         \<and> (b1 @ e1 @ b2 @ e2 @ b3 @ e3 @ b4 @ e4 = [0x5f, 0xf5, 0xaf, 0xfa] \<longrightarrow> p' = p)"
proof -
  let ?w4 = "w\<lparr>arrivals := rest, tx := tx w @ [[0xa0], [0x0a], [0x50], [0x05]]\<rparr>"
  let ?r4 = "hexs (b1 @ e1 @ b2 @ e2 @ b3 @ e3 @ b4 @ e4)"
  from magic_pass [OF buf arr ne nr, of p True] obtain p' t' where
    sm: "send_magic cmd_bytes [] p True w = Return (?r4, p', t') ?w4"
    and t': "\<not> t'" and p': "?r4 = handshake_magic \<longrightarrow> p' = p"
    by blast
  have "handshake_loop rd p True w = handshake_loop ?r4 p' t' ?w4"
    by (subst handshake_loop.simps) (simp add: sm del: hexs_simps)
  also have "\<dots> = Return (?r4, p') ?w4"
    using t' by (subst handshake_loop.simps) (simp del: hexs_simps)
  finally have "handshake_loop rd p True w = Return (?r4, p') ?w4" .
  moreover from p' have "b1 @ e1 @ b2 @ e2 @ b3 @ e3 @ b4 @ e4 = [0x5f, 0xf5, 0xaf, 0xfa] \<longrightarrow> p' = p"
    unfolding handshake_magic_hexs hexs_inj .
  ultimately show ?thesis by blast
qed

text \<open>
  C2. The device answers each magic byte with a burst that ends the busy wait (after any
  number of empty looks) and a burst counted with it; the response accumulated over the
  four bytes A0 0A 50 05 is \<open>resp\<close>, and no shorter accumulation is READY. Then
  \<^verbatim>\<open>try_handshake\<close> writes exactly the four magic bytes and ends as \<open>resp\<close> says: with
  5F F5 AF FA it succeeds and reports BootROM; with the sent A0 0A 50 05 it prints the
  warning and goes on; with anything else it ends the process. When the device has
  answered the first magic byte with READY, the program has written A0 once more before
  the four bytes, and the success reports Preloader. More generally, whenever the sending
  loop ends, what it has accumulated is the text of a byte sequence and the outcome is the
  one that sequence and the Preloader flag determine.
\<close>

theorem try_handshake_outcome:
  assumes "in_buf w = []"
  shows "(arrivals w = answer k1 b1 e1 @ answer k2 b2 e2 @ answer k3 b3 e3 @ answer k4 b4 e4 @ rest
          \<and> b1 \<noteq> [] \<and> b2 \<noteq> [] \<and> b3 \<noteq> [] \<and> b4 \<noteq> []
          \<and> b1 @ e1 \<noteq> [0x52, 0x45, 0x41, 0x44, 0x59]
          \<and> b1 @ e1 @ b2 @ e2 \<noteq> [0x52, 0x45, 0x41, 0x44, 0x59]
          \<and> b1 @ e1 @ b2 @ e2 @ b3 @ e3 \<noteq> [0x52, 0x45, 0x41, 0x44, 0x59]
          \<longrightarrow> try_handshake w port =
                handshake_outcome (b1 @ e1 @ b2 @ e2 @ b3 @ e3 @ b4 @ e4) False port
                  (w\<lparr>arrivals := rest, tx := tx w @ [[0xa0], [0x0a], [0x50], [0x05]]\<rparr>))
       \<and> (arrivals w = answer k0 g e0 @ answer k1 b1 e1 @ answer k2 b2 e2 @ answer k3 b3 e3
                          @ answer k4 b4 e4 @ rest
          \<and> g \<noteq> [] \<and> g @ e0 = [0x52, 0x45, 0x41, 0x44, 0x59]
          \<and> b1 \<noteq> [] \<and> b2 \<noteq> [] \<and> b3 \<noteq> [] \<and> b4 \<noteq> []
          \<and> b1 @ e1 \<noteq> [0x52, 0x45, 0x41, 0x44, 0x59]
          \<and> b1 @ e1 @ b2 @ e2 \<noteq> [0x52, 0x45, 0x41, 0x44, 0x59]
          \<and> b1 @ e1 @ b2 @ e2 @ b3 @ e3 \<noteq> [0x52, 0x45, 0x41, 0x44, 0x59]
          \<longrightarrow> try_handshake w port =
                handshake_outcome (b1 @ e1 @ b2 @ e2 @ b3 @ e3 @ b4 @ e4) True port
                  (w\<lparr>arrivals := rest,
                     tx := tx w @ [[0xa0], [0xa0], [0x0a], [0x50], [0x05]]\<rparr>))
       \<and> (handshake_loop [] False True w = Return (rdata, is_preloader) w'
          \<longrightarrow> (\<exists>resp. rdata = hexs resp
                \<and> try_handshake w port = handshake_outcome resp is_preloader port w'))"
proof (intro conjI impI)
  let ?resp = "b1 @ e1 @ b2 @ e2 @ b3 @ e3 @ b4 @ e4"
  let ?w4 = "w\<lparr>arrivals := rest, tx := tx w @ [[0xa0], [0x0a], [0x50], [0x05]]\<rparr>"
  assume h: "arrivals w = answer k1 b1 e1 @ answer k2 b2 e2 @ answer k3 b3 e3 @ answer k4 b4 e4 @ rest
          \<and> b1 \<noteq> [] \<and> b2 \<noteq> [] \<and> b3 \<noteq> [] \<and> b4 \<noteq> []
          \<and> b1 @ e1 \<noteq> [0x52, 0x45, 0x41, 0x44, 0x59]
          \<and> b1 @ e1 @ b2 @ e2 \<noteq> [0x52, 0x45, 0x41, 0x44, 0x59]
          \<and> b1 @ e1 @ b2 @ e2 @ b3 @ e3 \<noteq> [0x52, 0x45, 0x41, 0x44, 0x59]"
  then have arr: "arrivals w = answer k1 b1 e1 @ answer k2 b2 e2 @ answer k3 b3 e3 @ answer k4 b4 e4 @ rest"
    and ne: "b1 \<noteq> []" "b2 \<noteq> []" "b3 \<noteq> []" "b4 \<noteq> []"
    and nr: "b1 @ e1 \<noteq> [0x52, 0x45, 0x41, 0x44, 0x59]"
            "b1 @ e1 @ b2 @ e2 \<noteq> [0x52, 0x45, 0x41, 0x44, 0x59]"
            "b1 @ e1 @ b2 @ e2 @ b3 @ e3 \<noteq> [0x52, 0x45, 0x41, 0x44, 0x59]"
    by simp_all
  from magic_loop [OF assms arr ne nr, of "[]" False] obtain p' where
    l: "handshake_loop [] False True w = Return (hexs ?resp, p') ?w4"
    and p': "?resp = [0x5f, 0xf5, 0xaf, 0xfa] \<longrightarrow> p' = False"
    by blast
  have "try_handshake w port = handshake_outcome ?resp p' port ?w4"
    using l by (rule try_handshake_loop)
  also have "\<dots> = handshake_outcome ?resp False port ?w4"
  proof (cases "?resp = [0x5f, 0xf5, 0xaf, 0xfa]")
    case True
    with p' show ?thesis by simp
  next
    case False
    then show ?thesis by (rule handshake_outcome_flag)
  qed
  finally show "try_handshake w port = handshake_outcome ?resp False port ?w4" .
next
  let ?resp = "b1 @ e1 @ b2 @ e2 @ b3 @ e3 @ b4 @ e4"
  let ?a = "answer k1 b1 e1 @ answer k2 b2 e2 @ answer k3 b3 e3 @ answer k4 b4 e4 @ rest"
  let ?w0 = "w\<lparr>arrivals := ?a, tx := tx w @ [[0xa0]]\<rparr>"
  let ?w4 = "w\<lparr>arrivals := rest, tx := tx w @ [[0xa0], [0xa0], [0x0a], [0x50], [0x05]]\<rparr>"
  assume h: "arrivals w = answer k0 g e0 @ answer k1 b1 e1 @ answer k2 b2 e2 @ answer k3 b3 e3
                          @ answer k4 b4 e4 @ rest
          \<and> g \<noteq> [] \<and> g @ e0 = [0x52, 0x45, 0x41, 0x44, 0x59]
          \<and> b1 \<noteq> [] \<and> b2 \<noteq> [] \<and> b3 \<noteq> [] \<and> b4 \<noteq> []
          \<and> b1 @ e1 \<noteq> [0x52, 0x45, 0x41, 0x44, 0x59]
          \<and> b1 @ e1 @ b2 @ e2 \<noteq> [0x52, 0x45, 0x41, 0x44, 0x59]
          \<and> b1 @ e1 @ b2 @ e2 @ b3 @ e3 \<noteq> [0x52, 0x45, 0x41, 0x44, 0x59]"
  then have arr: "arrivals w = answer k0 g e0 @ ?a"
    and g: "g \<noteq> []" and ready: "g @ e0 = [0x52, 0x45, 0x41, 0x44, 0x59]"
    and ne: "b1 \<noteq> []" "b2 \<noteq> []" "b3 \<noteq> []" "b4 \<noteq> []"
    and nr: "b1 @ e1 \<noteq> [0x52, 0x45, 0x41, 0x44, 0x59]"
            "b1 @ e1 @ b2 @ e2 \<noteq> [0x52, 0x45, 0x41, 0x44, 0x59]"
            "b1 @ e1 @ b2 @ e2 @ b3 @ e3 \<noteq> [0x52, 0x45, 0x41, 0x44, 0x59]"
    by simp_all
  from ready have gr: "[] @ hexs (g @ e0) = preloader_greet"
    by (simp only: preloader_greet_hexs append_Nil)
  have first: "send_magic cmd_bytes [] False True w = Return (preloader_greet, True, True) ?w0"
    unfolding cmd_bytes_def send_magic_answer [OF assms arr g] gr by simp
  have step: "handshake_loop [] False True w = handshake_loop preloader_greet True True ?w0"
    by (subst handshake_loop.simps) (simp add: first)
  have "in_buf ?w0 = []" "arrivals ?w0 = ?a" using assms by simp_all
  from magic_loop [OF this ne nr, of preloader_greet True] obtain p' where
    l: "handshake_loop preloader_greet True True ?w0 = Return (hexs ?resp, p') ?w4"
    and p': "?resp = [0x5f, 0xf5, 0xaf, 0xfa] \<longrightarrow> p' = True"
    by auto
  have "try_handshake w port = handshake_outcome ?resp p' port ?w4"
    using l unfolding step [symmetric] by (rule try_handshake_loop)
  also have "\<dots> = handshake_outcome ?resp True port ?w4"
  proof (cases "?resp = [0x5f, 0xf5, 0xaf, 0xfa]")
    case True
    with p' show ?thesis by simp
  next
    case False
    then show ?thesis by (rule handshake_outcome_flag)
  qed
  finally show "try_handshake w port = handshake_outcome ?resp True port ?w4" .
next
  assume l: "handshake_loop [] False True w = Return (rdata, is_preloader) w'"
  have "\<exists>acc. ([] :: string) = hexs acc" by (rule exI [of _ "[]"]) simp
  from handshake_loop_hexs [OF l this] obtain resp where resp: "rdata = hexs resp" ..
  from l have "try_handshake w port = handshake_outcome resp is_preloader port w'"
    unfolding resp by (rule try_handshake_loop)
  with resp show "\<exists>resp. rdata = hexs resp
                \<and> try_handshake w port = handshake_outcome resp is_preloader port w'"
    by blast
qed

theorem try_handshake_outcome_witness:
  "try_handshake bootrom_dev ''COM1'' =
     Return (Some True)
       (bootrom_dev\<lparr>arrivals := [], tx := [[0xa0], [0x0a], [0x50], [0x05]],
          stdout := [''Handshake success! Found MTK device at COM1'',
                     ''Device connected via BootROM'']\<rparr>)
   \<and> try_handshake preloader_dev ''COM1'' =
     Return (Some True)
       (preloader_dev\<lparr>arrivals := [], tx := [[0xa0], [0xa0], [0x0a], [0x50], [0x05]],
          stdout := [''Handshake success! Found MTK device at COM1'',
                     ''Device connected via Preloader'']\<rparr>)
   \<and> try_handshake echo_dev ''COM1'' =
     Return None
       (echo_dev\<lparr>arrivals := [], tx := [[0xa0], [0x0a], [0x50], [0x05]],
          stdout := [''Handshake complete. Warning: device returned input data. (Is Handshake already done?)'']\<rparr>)
   \<and> try_handshake garbage_dev ''COM1'' =
     Raise SystemExit
       (garbage_dev\<lparr>arrivals := [], tx := [[0xa0], [0x0a], [0x50], [0x05]],
          stdout := [''Handshake failed! Aborting.'']\<rparr>)
   \<and> handshake_loop [] False True garbage_dev =
     Return (hexs [0x5f, 0xf5, 0xaf, 0x00], False)
       (garbage_dev\<lparr>arrivals := [], tx := [[0xa0], [0x0a], [0x50], [0x05]]\<rparr>)"
proof -
  have buf: "in_buf bootrom_dev = []" "in_buf preloader_dev = []" "in_buf echo_dev = []"
    "in_buf garbage_dev = []"
    by (simp_all add: bootrom_dev_def preloader_dev_def echo_dev_def garbage_dev_def device_def)
  have a1: "arrivals bootrom_dev = answer 0 [0x5f] [] @ answer 0 [0xf5] [] @ answer 0 [0xaf] []
        @ answer 0 [0xfa] [] @ []"
    by (simp add: bootrom_dev_def device_def answer_def)
  have a2: "arrivals preloader_dev = answer 0 [0x52, 0x45, 0x41, 0x44, 0x59] []
        @ answer 0 [0x5f] [] @ answer 0 [0xf5] [] @ answer 0 [0xaf] [] @ answer 0 [0xfa] [] @ []"
    by (simp add: preloader_dev_def device_def answer_def)
  have a3: "arrivals echo_dev = answer 0 [0xa0] [] @ answer 0 [0x0a] [] @ answer 0 [0x50] []
        @ answer 0 [0x05] [] @ []"
    by (simp add: echo_dev_def device_def answer_def)
  have a4: "arrivals garbage_dev = answer 0 [0x5f] [] @ answer 0 [0xf5] [] @ answer 0 [0xaf] []
        @ answer 0 [0x00] [] @ []"
    by (simp add: garbage_dev_def device_def answer_def)
  from try_handshake_outcome [OF buf(1), THEN conjunct1, THEN mp,
      of 0 "[0x5f]" "[]" 0 "[0xf5]" "[]" 0 "[0xaf]" "[]" 0 "[0xfa]" "[]" "[]" "''COM1''"] a1
  have 1: "try_handshake bootrom_dev ''COM1'' =
     Return (Some True)
       (bootrom_dev\<lparr>arrivals := [], tx := [[0xa0], [0x0a], [0x50], [0x05]],
          stdout := [''Handshake success! Found MTK device at COM1'',
                     ''Device connected via BootROM'']\<rparr>)"
    by (simp add: handshake_outcome_def print_def bootrom_dev_def device_def)
  from try_handshake_outcome [OF buf(2), THEN conjunct2, THEN conjunct1, THEN mp,
      of 0 "[0x52, 0x45, 0x41, 0x44, 0x59]" "[]"
         0 "[0x5f]" "[]" 0 "[0xf5]" "[]" 0 "[0xaf]" "[]" 0 "[0xfa]" "[]" "[]" "''COM1''"] a2
  have 2: "try_handshake preloader_dev ''COM1'' =
     Return (Some True)
       (preloader_dev\<lparr>arrivals := [], tx := [[0xa0], [0xa0], [0x0a], [0x50], [0x05]],
          stdout := [''Handshake success! Found MTK device at COM1'',
                     ''Device connected via Preloader'']\<rparr>)"
    by (simp add: handshake_outcome_def print_def preloader_dev_def device_def)
  from try_handshake_outcome [OF buf(3), THEN conjunct1, THEN mp,
      of 0 "[0xa0]" "[]" 0 "[0x0a]" "[]" 0 "[0x50]" "[]" 0 "[0x05]" "[]" "[]" "''COM1''"] a3
  have 3: "try_handshake echo_dev ''COM1'' =
     Return None
       (echo_dev\<lparr>arrivals := [], tx := [[0xa0], [0x0a], [0x50], [0x05]],
          stdout := [''Handshake complete. Warning: device returned input data. (Is Handshake already done?)'']\<rparr>)"
    by (simp add: handshake_outcome_def print_def echo_dev_def device_def)
  from try_handshake_outcome [OF buf(4), THEN conjunct2, THEN conjunct2, THEN mp,
      OF garbage_loop, of "''COM1''"]
  have 4: "try_handshake garbage_dev ''COM1'' =
     Raise SystemExit
       (garbage_dev\<lparr>arrivals := [], tx := [[0xa0], [0x0a], [0x50], [0x05]],
          stdout := [''Handshake failed! Aborting.'']\<rparr>)"
    by (auto simp: handshake_outcome_def print_def garbage_dev_def device_def simp del: hexs_simps)
  from 1 2 3 4 garbage_loop show ?thesis by (intro conjI)
qed

text \<open>A device that leaves the fourth magic byte unanswered: the busy wait never ends.\<close>

lemma try_handshake_unanswered:
  "try_handshake (device [[0x5f], [], [0xf5], [], [0xaf], []]) port = Hang"
  by (simp add: try_handshake_def hs_eval)

theorem handshake_ready_witness:
  "in_buf preloader_dev = []
   \<and> arrivals preloader_dev =
       (0x52 # [0x45, 0x41, 0x44, 0x59]) # [] # [[0x5f], [], [0xf5], [], [0xaf], [], [0xfa], []]
   \<and> [] @ hexs (0x52 # [0x45, 0x41, 0x44, 0x59] @ []) = preloader_greet
   \<and> send_magic (0xa0 # [0x0a, 0x50, 0x05]) [] False True preloader_dev =
       Return (preloader_greet, True, True)
         (preloader_dev\<lparr>arrivals := [[0x5f], [], [0xf5], [], [0xaf], [], [0xfa], []],
            tx := [[0xa0]]\<rparr>)
   \<and> handshake_loop [] False True preloader_dev =
       Return (handshake_magic, True)
         (preloader_dev\<lparr>arrivals := [], tx := [[0xa0], [0xa0], [0x0a], [0x50], [0x05]]\<rparr>)"
proof -
  have a: "in_buf preloader_dev = []"
    and b: "arrivals preloader_dev =
       (0x52 # [0x45, 0x41, 0x44, 0x59]) # [] # [[0x5f], [], [0xf5], [], [0xaf], [], [0xfa], []]"
    by (simp_all add: preloader_dev_def device_def)
  have c: "[] @ hexs (0x52 # [0x45, 0x41, 0x44, 0x59] @ []) = preloader_greet"
    by (simp add: preloader_greet_hexs)
  have d: "0x52 # [0x45, 0x41, 0x44, 0x59] @ [] = [0x52, 0x45, 0x41, 0x44, 0x59 :: byte]"
    by simp
  note t = handshake_ready [OF a b, of "[]" "0xa0" "[0x0a, 0x50, 0x05]" False True "[]"]
  from t [THEN conjunct1, THEN mp, OF c]
  have 1: "send_magic (0xa0 # [0x0a, 0x50, 0x05]) [] False True preloader_dev =
       Return (preloader_greet, True, True)
         (preloader_dev\<lparr>arrivals := [[0x5f], [], [0xf5], [], [0xaf], [], [0xfa], []],
            tx := [[0xa0]]\<rparr>)"
    by (simp add: preloader_dev_def device_def)
  from t [THEN conjunct2, THEN mp, OF d]
  have 2: "handshake_loop [] False True preloader_dev =
       Return (handshake_magic, True)
         (preloader_dev\<lparr>arrivals := [], tx := [[0xa0], [0xa0], [0x0a], [0x50], [0x05]]\<rparr>)"
    by (simp add: preloader_dev_def handshake_magic_def hs_eval)
  from a b c 1 2 show ?thesis by (intro conjI)
qed

text \<open>
  After the greeting the program has written A0 twice: it started the magic over instead
  of going on with the three bytes that remained.
\<close>

theorem handshake_ready_counterexample:
  "handshake_loop [] False True preloader_dev =
     Return (hexs [0x5f, 0xf5, 0xaf, 0xfa], True)
       (preloader_dev\<lparr>arrivals := [], tx := [[0xa0], [0xa0], [0x0a], [0x50], [0x05]]\<rparr>)
   \<and> [[0xa0], [0xa0], [0x0a], [0x50], [0x05]] \<noteq> [[0xa0], [0x0a], [0x50], [0x05 :: byte]]"
  using preloader_loop by simp

section \<open>Properties of the authentication and qualification exchanges\<close>

lemma write_serial_hexs:
  "write_serial w (hexs bs) = Return () (w\<lparr>tx := tx w @ map (\<lambda>b. [b]) bs\<rparr>)"
  by (simp add: write_serial_def hexs_def write_serial_raw_tx)

lemma frame_hexs: "''e3'' = hexs [0xe3]" "''e2'' = hexs [0xe2]" "''d7'' = hexs [0xd7]"
  "''00000100'' = hexs [0x00, 0x00, 0x01, 0x00]"
  "''000008d0'' = hexs [0x00, 0x00, 0x08, 0xd0]"
  "''00200000'' = hexs [0x00, 0x20, 0x00, 0x00]"
  "''000361a8'' = hexs [0x00, 0x03, 0x61, 0xa8]"
  "''0000'' = hexs [0x00, 0x00]"
  by (simp_all add: format_02x_def hex_digit_def)

lemma read_echo_hexs:
  "in_buf w = [] \<Longrightarrow> arrivals w = (b # bs) # rest \<Longrightarrow>
   read_serial w 1 = Return [hexs [b]] (w\<lparr>in_buf := bs, arrivals := rest\<rparr>)"
  using read_echo [of w b bs rest] by simp

text \<open>
  C9, as the code has it. When the device answers the command byte with another byte,
  \<^verbatim>\<open>send_auth_file\<close> ends the process, but \<^verbatim>\<open>qualify_host\<close> returns to its caller
  without a word: it has no \<^verbatim>\<open>else\<close> branch. Neither sends anything after the
  mismatch.
\<close>

theorem qualify_host_mismatch:
  assumes "in_buf w = []" and "arrivals w = (b # bs) # rest"
  shows "(b \<noteq> 0xe3 \<longrightarrow>
           qualify_host w =
             Return () (w\<lparr>in_buf := bs, arrivals := rest, tx := tx w @ [[0xe3]]\<rparr>))
       \<and> (b \<noteq> 0xe2 \<longrightarrow>
           send_auth_file w auth_file =
             Raise SystemExit (w\<lparr>in_buf := bs, arrivals := rest, tx := tx w @ [[0xe2]],
                                 stdout := stdout w @ [''Send Auth File failed! Aborting.'']\<rparr>))"
proof (intro conjI impI)
  assume ne: "b \<noteq> 0xe3"
  let ?w1 = "w\<lparr>tx := tx w @ map (\<lambda>b. [b]) [0xe3]\<rparr>"
  have e: "read_serial ?w1 1 = Return [hexs [b]] (?w1\<lparr>in_buf := bs, arrivals := rest\<rparr>)"
    using assms by (intro read_echo_hexs) simp_all
  from ne have "hexs [b] \<noteq> hexs [0xe3]" by (simp only: hexs_inj) simp
  then show "qualify_host w =
             Return () (w\<lparr>in_buf := bs, arrivals := rest, tx := tx w @ [[0xe3]]\<rparr>)"
    unfolding qualify_host_def SKIP_SLA_def frame_hexs write_serial_hexs and_then_simps e
    by (simp del: hexs_simps)
next
  assume ne: "b \<noteq> 0xe2"
  let ?w1 = "w\<lparr>tx := tx w @ map (\<lambda>b. [b]) [0xe2]\<rparr>"
  have e: "read_serial ?w1 1 = Return [hexs [b]] (?w1\<lparr>in_buf := bs, arrivals := rest\<rparr>)"
    using assms by (intro read_echo_hexs) simp_all
  from ne have "hexs [b] \<noteq> hexs [0xe2]" by (simp only: hexs_inj) simp
  then show "send_auth_file w auth_file =
             Raise SystemExit (w\<lparr>in_buf := bs, arrivals := rest, tx := tx w @ [[0xe2]],
                                 stdout := stdout w @ [''Send Auth File failed! Aborting.'']\<rparr>)"
    unfolding send_auth_file_def frame_hexs write_serial_hexs and_then_simps e
    by (simp add: print_def del: hexs_simps)
qed

theorem qualify_host_mismatch_witness:
  "in_buf no_echo_e3 = [] \<and> arrivals no_echo_e3 = (0x00 # []) # []
   \<and> (0x00 :: byte) \<noteq> 0xe3 \<and> (0x00 :: byte) \<noteq> 0xe2
   \<and> qualify_host no_echo_e3 = Return () (no_echo_e3\<lparr>arrivals := [], tx := [[0xe3]]\<rparr>)
   \<and> send_auth_file no_echo_e3 [] =
       Raise SystemExit (no_echo_e3\<lparr>arrivals := [], tx := [[0xe2]],
                           stdout := [''Send Auth File failed! Aborting.'']\<rparr>)
   \<and> qualify_host bad_ack_e3 =
       Return () (bad_ack_e3\<lparr>arrivals := [],
                    tx := [[0xe3], [0x00], [0x00], [0x01], [0x00]]\<rparr>)"
proof -
  have a: "in_buf no_echo_e3 = []" "arrivals no_echo_e3 = (0x00 # []) # []"
    by (simp_all add: no_echo_e3_def device_def)
  have n: "(0x00 :: byte) \<noteq> 0xe3" "(0x00 :: byte) \<noteq> 0xe2" by simp_all
  note t = qualify_host_mismatch [OF a, of "[]"]
  from t [THEN conjunct1, THEN mp, OF n(1)]
  have 1: "qualify_host no_echo_e3 = Return () (no_echo_e3\<lparr>arrivals := [], tx := [[0xe3]]\<rparr>)"
    by (simp add: no_echo_e3_def device_def)
  from t [THEN conjunct2, THEN mp, OF n(2)]
  have 2: "send_auth_file no_echo_e3 [] =
       Raise SystemExit (no_echo_e3\<lparr>arrivals := [], tx := [[0xe2]],
                           stdout := [''Send Auth File failed! Aborting.'']\<rparr>)"
    by (simp add: no_echo_e3_def device_def)
  have 3: "qualify_host bad_ack_e3 =
       Return () (bad_ack_e3\<lparr>arrivals := [],
                    tx := [[0xe3], [0x00], [0x00], [0x01], [0x00]]\<rparr>)"
    by (simp add: qualify_host_def SKIP_SLA_def bad_ack_e3_def port_eval)
  from a n 1 2 3 show ?thesis by (intro conjI)
qed

section \<open>Properties of the DA transfer\<close>

lemma load_da_None: "load_da f = Inr (ba, out, pos) \<Longrightarrow> ba = None"
  by (auto simp: load_da_def Let_def split: option.splits sum.splits)

lemma read_serial_burst:
  assumes "in_buf w = []" and "arrivals w \<noteq> []" and "hd (arrivals w) \<noteq> []"
    and "length (hd (arrivals w)) = n"
  shows "read_serial w n =
     Return (map format_02x (hd (arrivals w))) (w\<lparr>arrivals := tl (arrivals w)\<rparr>)"
proof -
  from assms(2) obtain bs rest where arr: "arrivals w = bs # rest"
    by (cases "arrivals w") auto
  from assms(3) arr obtain c cs where bs: "bs = c # cs" by (cases bs) auto
  have tw: "tick w = w\<lparr>in_buf := bs, arrivals := rest\<rparr>"
    using assms(1) arr by (simp add: tick_def)
  have "read_serial (tick w) (length (in_buf (tick w))) =
      Return (map format_02x (in_buf (tick w))) ((tick w)\<lparr>in_buf := []\<rparr>)"
    by (rule read_serial_all)
  moreover have "(tick w)\<lparr>in_buf := []\<rparr> = w\<lparr>arrivals := rest\<rparr>"
    using assms(1) by (simp add: tw)
  ultimately have r: "read_serial (tick w) (length bs) =
      Return (map format_02x bs) (w\<lparr>arrivals := rest\<rparr>)"
    by (simp add: tw)
  have "read_serial w (length bs) = read_serial (tick w) (length bs)"
    unfolding bs using assms(1) arr by (simp add: read_serial.simps(2) s_read1_wait)
  with r assms(4) arr show ?thesis by simp
qed

text \<open>
  The chunk loop itself would do what is expected of it: given the image, it writes the
  bytes of its \<open>n\<close> whole chunks in order and nothing of a shorter rest.
\<close>

lemma send_chunks_tx:
  "n * 8192 \<le> length ba \<Longrightarrow> i \<le> n \<Longrightarrow>
   send_chunks [i..<n] ba w =
     Return () (w\<lparr>tx := tx w @ map (\<lambda>b. [b]) (drop (i * 8192) (take (n * 8192) ba))\<rparr>)"
proof (induction "n - i" arbitrary: i w)
  case 0
  then show ?case by simp
next
  case (Suc k)
  then have lt: "i < n" and k: "k = n - Suc i" and le: "Suc i \<le> n" by simp_all
  let ?w1 = "w\<lparr>tx := tx w @ map (\<lambda>b. [b]) (py_slice ba (i * 8192) ((i + 1) * 8192))\<rparr>"
  have sl: "py_slice ba (i * 8192) ((i + 1) * 8192) @ drop (Suc i * 8192) (take (n * 8192) ba)
      = drop (i * 8192) (take (n * 8192) ba)"
  proof -
    from le have am: "i * 8192 + 8192 \<le> n * 8192" by simp
    then have "py_slice ba (i * 8192) ((i + 1) * 8192) =
        take 8192 (drop (i * 8192) (take (n * 8192) ba))"
      by (simp add: py_slice_def drop_take min_def add.commute)
    moreover have "drop (Suc i * 8192) (take (n * 8192) ba) =
        drop 8192 (drop (i * 8192) (take (n * 8192) ba))"
      by (simp add: add.commute)
    ultimately show ?thesis by (simp only: append_take_drop_id)
  qed
  from Suc.hyps(1) [OF k Suc.prems(1) le, of ?w1] lt sl show ?case
    by (simp add: upt_conv_Cons write_serial_raw_tx flip: map_append)
qed

text \<open>
  C1, as the code has it. \<^verbatim>\<open>load_da\<close> returns \<^verbatim>\<open>None\<close>, so once the command
  byte and the three frames have been echoed and the two status bytes read, \<^verbatim>\<open>send_da\<close>
  raises \<^verbatim>\<open>TypeError\<close> at \<^verbatim>\<open>len(ba)\<close>: it has written the thirteen bytes of the
  command and the frames, and not one byte of the image.
\<close>

theorem send_da_no_image:
  assumes "in_buf w = []"
    and "arrivals w = [0xd7] # [0x00, 0x20, 0x00, 0x00] # [0x00, 0x03, 0x61, 0xa8]
                      # [0x00, 0x00, 0x01, 0x00] # [s1, s2] # rest"
    and "load_da da_file = Inr (ba, out, pos)"
  shows "ba = None \<and> send_da w da_file =
     Raise TypeError
       (w\<lparr>arrivals := rest,
          tx := tx w @ map (\<lambda>b. [b]) [0xd7, 0x00, 0x20, 0x00, 0x00, 0x00, 0x03, 0x61, 0xa8,
                                        0x00, 0x00, 0x01, 0x00],
          stdout := stdout w @ out\<rparr>)"
proof -
  from assms(3) have ba: "ba = None" by (rule load_da_None)
  have "send_da w da_file =
     Raise TypeError
       (w\<lparr>arrivals := rest,
          tx := tx w @ map (\<lambda>b. [b]) [0xd7, 0x00, 0x20, 0x00, 0x00, 0x00, 0x03, 0x61, 0xa8,
                                        0x00, 0x00, 0x01, 0x00],
          stdout := stdout w @ out\<rparr>)"
    using assms(1,2)
    by (simp add: send_da_def write_serial_def hex_val_def write_serial_raw_tx
        read_serial_burst format_02x_def hex_digit_def assms(3) ba)
  with ba show ?thesis by simp
qed

lemma da_sample_load:
  "load_da (da_sample @ rest) =
     Inr (None, [''    - MT6765'', ''    - MT6761'', ''    - MT6768''], 768)"
proof -
  have len: "(0x68 + 4) + 3 * 220 \<le> length (da_sample @ rest)"
    by (simp add: da_sample_def da_record_def)
  have cnt: "unpack_I (f_read (da_sample @ rest) 0x68 4) = Some 3"
    by (simp add: da_sample_def da_record_def f_read_def)
  have up: "[0..<3] = [0, 1, 2::nat]" by code_simp
  have l0: "chip_line (da_sample @ rest) (0x68 + 4 + 0 * 220) = ''    - MT6765''"
    by (simp add: chip_line_def da_sample_def da_record_def f_read_def le32_def
        hex_digits.simps hex_digit_def)
  have l1: "chip_line (da_sample @ rest) (0x68 + 4 + 1 * 220) = ''    - MT6761''"
    by (simp add: chip_line_def da_sample_def da_record_def f_read_def le32_def
        hex_digits.simps hex_digit_def)
  have l2: "chip_line (da_sample @ rest) (0x68 + 4 + 2 * 220) = ''    - MT6768''"
    by (simp add: chip_line_def da_sample_def da_record_def f_read_def le32_def
        hex_digits.simps hex_digit_def)
  from load_da_loop_lines [OF len, of "[]"] l0 l1 l2 show ?thesis
    unfolding up by (simp add: load_da_def cnt)
qed

lemma da_image_load:
  "load_da da_image =
     Inr (None, [''    - MT6765'', ''    - MT6761'', ''    - MT6768''], 768)"
  "load_da (da_image @ [0x00]) =
     Inr (None, [''    - MT6765'', ''    - MT6761'', ''    - MT6768''], 768)"
  using da_sample_load [of "replicate 15616 0"] da_sample_load [of "replicate 15616 0 @ [0x00]"]
  by (simp_all add: da_image_def)

theorem send_da_no_image_witness:
  "in_buf da_dev = []
   \<and> arrivals da_dev = [0xd7] # [0x00, 0x20, 0x00, 0x00] # [0x00, 0x03, 0x61, 0xa8]
                      # [0x00, 0x00, 0x01, 0x00] # [0x00, 0x00] # []
   \<and> length da_image = 16384 \<and> length (da_image @ [0x00]) = 16385
   \<and> load_da da_image = Inr (None, [''    - MT6765'', ''    - MT6761'', ''    - MT6768''], 768)
   \<and> send_da da_dev da_image =
       Raise TypeError
         (da_dev\<lparr>arrivals := [],
            tx := [[0xd7], [0x00], [0x20], [0x00], [0x00], [0x00], [0x03], [0x61], [0xa8],
                   [0x00], [0x00], [0x01], [0x00]],
            stdout := [''    - MT6765'', ''    - MT6761'', ''    - MT6768'']\<rparr>)
   \<and> send_da da_dev (da_image @ [0x00]) =
       Raise TypeError
         (da_dev\<lparr>arrivals := [],
            tx := [[0xd7], [0x00], [0x20], [0x00], [0x00], [0x00], [0x03], [0x61], [0xa8],
                   [0x00], [0x00], [0x01], [0x00]],
            stdout := [''    - MT6765'', ''    - MT6761'', ''    - MT6768'']\<rparr>)"
proof -
  have a: "in_buf da_dev = []"
    and b: "arrivals da_dev = [0xd7] # [0x00, 0x20, 0x00, 0x00] # [0x00, 0x03, 0x61, 0xa8]
                      # [0x00, 0x00, 0x01, 0x00] # [0x00, 0x00] # []"
    by (simp_all add: da_dev_def device_def)
  have l: "length da_image = 16384"
    by (simp add: da_image_def da_sample_def da_record_def)
  have l': "length (da_image @ [0x00]) = 16385"
    by (simp add: l)
  from send_da_no_image [OF a b da_image_load(2)]
  have 2: "send_da da_dev (da_image @ [0x00]) =
       Raise TypeError
         (da_dev\<lparr>arrivals := [],
            tx := [[0xd7], [0x00], [0x20], [0x00], [0x00], [0x00], [0x03], [0x61], [0xa8],
                   [0x00], [0x00], [0x01], [0x00]],
            stdout := [''    - MT6765'', ''    - MT6761'', ''    - MT6768'']\<rparr>)"
    by (simp add: da_dev_def device_def)
  from send_da_no_image [OF a b da_image_load(1)]
  have 1: "send_da da_dev da_image =
       Raise TypeError
         (da_dev\<lparr>arrivals := [],
            tx := [[0xd7], [0x00], [0x20], [0x00], [0x00], [0x00], [0x03], [0x61], [0xa8],
                   [0x00], [0x00], [0x01], [0x00]],
            stdout := [''    - MT6765'', ''    - MT6761'', ''    - MT6768'']\<rparr>)"
    by (simp add: da_dev_def device_def)
  from a b l l' da_image_load(1) 1 2 show ?thesis by (intro conjI)
qed

end
